theory Spec2Isabelle
  imports Complex_Main "HOL-Library.Word" "HOL-Library.Log_Nat"
begin

section \<open>gopiq: a chainable image processor\<close>

text \<open>
  A shallow embedding of \<^verbatim>\<open>gopiq.go\<close> and \<^verbatim>\<open>formats.go\<close>. Go's \<^verbatim>\<open>int\<close> is modelled by
  \<^typ>\<open>int\<close>: every integer of the program is a pixel coordinate, a buffer index or a
  worker count, far below \<open>2^63\<close>, so no addition of the source wraps. A \<^verbatim>\<open>uint8\<close> sample
  is an \<^typ>\<open>8 word\<close>. A run-time panic (index out of range, nil dereference, integer
  division by zero) is a value of type \<open>panic\<close>, and every function that can panic returns
  \<open>panic + 'a\<close>.
\<close>

subsection \<open>float64 arithmetic\<close>

text \<open>
  IEEE 754 binary64 with round-to-nearest, ties-to-even, on the rationals: a rational
  \<open>q\<close> with \<open>2^k \<le> \<bar>q\<bar> < 2^(k+1)\<close> is rounded to the nearest multiple of
  \<open>2^(k-52)\<close>. The grey levels lie between \<open>2^-4\<close> and \<open>2^8\<close>, so neither overflow
  nor subnormal numbers occur. Every multiplication and addition is rounded on
  its own, as the compiler for amd64 does; where a compiler fuses a multiplication with
  the addition that follows it, single grey levels can differ by one.
\<close>

definition roundHalfEven :: "rat \<Rightarrow> int" where
  "roundHalfEven q =
     (let n = \<lfloor>q\<rfloor>; d = q - of_int n
      in if d < 1 / 2 then n else if 1 / 2 < d then n + 1 else if even n then n else n + 1)"

definition ilog2 :: "rat \<Rightarrow> int" where
  "ilog2 q = (if 1 \<le> q then bitlen \<lfloor>q\<rfloor> - 1 else - bitlen (\<lceil>1 / q\<rceil> - 1))"

definition pow2 :: "int \<Rightarrow> rat" where
  "pow2 e = (if 0 \<le> e then 2 ^ nat e else 1 / 2 ^ nat (- e))"

definition float64 :: "rat \<Rightarrow> rat" where
  "float64 q =
     (if q = 0 then 0
      else let e = ilog2 \<bar>q\<bar> - 52 in of_int (roundHalfEven (q / pow2 e)) * pow2 e)"

definition fmul :: "rat \<Rightarrow> rat \<Rightarrow> rat" where
  "fmul a b = float64 (a * b)"

definition fadd :: "rat \<Rightarrow> rat \<Rightarrow> rat" where
  "fadd a b = float64 (a + b)"

definition fsub :: "rat \<Rightarrow> rat \<Rightarrow> rat" where
  "fsub a b = float64 (a - b)"

definition fdiv :: "rat \<Rightarrow> rat \<Rightarrow> rat" where
  "fdiv a b = float64 (a / b)"

text \<open>\<^verbatim>\<open>int(f)\<close> of a float64 truncates towards zero.\<close>

definition truncInt :: "rat \<Rightarrow> int" where
  "truncInt q = (if 0 \<le> q then \<lfloor>q\<rfloor> else \<lceil>q\<rceil>)"

type_synonym uint8 = "8 word"

text \<open>\<^verbatim>\<open>0.2126*float64(r) + 0.7152*float64(g) + 0.0722*float64(b)\<close>\<close>

definition luminosity :: "uint8 \<Rightarrow> uint8 \<Rightarrow> uint8 \<Rightarrow> rat" where
  "luminosity r g b =
     fadd (fadd (fmul (float64 (2126 / 10000)) (of_nat (unat r)))
                (fmul (float64 (7152 / 10000)) (of_nat (unat g))))
          (fmul (float64 (722 / 10000)) (of_nat (unat b)))"

text \<open>\<^verbatim>\<open>uint8(f)\<close> of a float64 truncates towards zero; here \<open>f\<close> is never negative.\<close>

definition gray :: "uint8 \<Rightarrow> uint8 \<Rightarrow> uint8 \<Rightarrow> uint8" where
  "gray r g b = word_of_int \<lfloor>luminosity r g b\<rfloor>"

text \<open>The spec's formula: the exact weighted sum, rounded to the nearest integer.\<close>

definition spec_gray :: "uint8 \<Rightarrow> uint8 \<Rightarrow> uint8 \<Rightarrow> int" where
  "spec_gray r g b =
     round ((2126 * of_nat (unat r) + 7152 * of_nat (unat g) + 722 * of_nat (unat b)) / (10000 :: rat))"

text \<open>The weighted sum of the luminosity formula, without rounding.\<close>

definition weightedSum :: "uint8 \<Rightarrow> uint8 \<Rightarrow> uint8 \<Rightarrow> rat" where
  "weightedSum r g b =
     (2126 * of_nat (unat r) + 7152 * of_nat (unat g) + 722 * of_nat (unat b)) / 10000"

subsection \<open>Panics and sequencing\<close>

datatype panic =
  IndexOutOfRange | NilDereference | DivideByZero | HugeOrNegativeDimensions |
  NegativeWaitGroupCounter

definition bindR :: "panic + 'a \<Rightarrow> ('a \<Rightarrow> panic + 'b) \<Rightarrow> panic + 'b" where
  "bindR m f = (case m of Inl e \<Rightarrow> Inl e | Inr v \<Rightarrow> f v)"

text \<open>\<^verbatim>\<open>for i := i0; i < n; i++ { body }\<close> over a threaded state.\<close>

function forLoop :: "int \<Rightarrow> int \<Rightarrow> (int \<Rightarrow> 's \<Rightarrow> panic + 's) \<Rightarrow> 's \<Rightarrow> panic + 's" where
  "forLoop i n body s =
     (if i < n then (case body i s of Inl e \<Rightarrow> Inl e | Inr s' \<Rightarrow> forLoop (i + 1) n body s')
      else Inr s)"
  by pat_completeness auto
termination
  by (relation "measure (\<lambda>(i, n, body, s). nat (n - i))") auto

declare forLoop.simps [simp del]

subsection \<open>Package image: points, rectangles, RGBA buffers\<close>

record Point =
  X :: int
  Y :: int

record Rectangle =
  MinP :: Point
  MaxP :: Point

definition Pt :: "int \<Rightarrow> int \<Rightarrow> Point" where
  "Pt x y = \<lparr>X = x, Y = y\<rparr>"

text \<open>\<^verbatim>\<open>image.Rect\<close> swaps its arguments where needed, so that the result is well formed.\<close>

definition image_Rect :: "int \<Rightarrow> int \<Rightarrow> int \<Rightarrow> int \<Rightarrow> Rectangle" where
  "image_Rect x0 y0 x1 y1 =
     \<lparr>MinP = Pt (if x0 > x1 then x1 else x0) (if y0 > y1 then y1 else y0),
      MaxP = Pt (if x0 > x1 then x0 else x1) (if y0 > y1 then y0 else y1)\<rparr>"

definition Dx :: "Rectangle \<Rightarrow> int" where
  "Dx r = X (MaxP r) - X (MinP r)"

definition Dy :: "Rectangle \<Rightarrow> int" where
  "Dy r = Y (MaxP r) - Y (MinP r)"

definition Empty :: "Rectangle \<Rightarrow> bool" where
  "Empty r \<longleftrightarrow> X (MinP r) \<ge> X (MaxP r) \<or> Y (MinP r) \<ge> Y (MaxP r)"

definition ZR :: Rectangle where
  "ZR = \<lparr>MinP = Pt 0 0, MaxP = Pt 0 0\<rparr>"

definition In :: "Rectangle \<Rightarrow> Rectangle \<Rightarrow> bool" where
  "In r s \<longleftrightarrow>
     (if Empty r then True
      else X (MinP s) \<le> X (MinP r) \<and> X (MaxP r) \<le> X (MaxP s) \<and>
           Y (MinP s) \<le> Y (MinP r) \<and> Y (MaxP r) \<le> Y (MaxP s))"

definition PointIn :: "Point \<Rightarrow> Rectangle \<Rightarrow> bool" where
  "PointIn p r \<longleftrightarrow>
     X (MinP r) \<le> X p \<and> X p < X (MaxP r) \<and> Y (MinP r) \<le> Y p \<and> Y p < Y (MaxP r)"

definition Intersect :: "Rectangle \<Rightarrow> Rectangle \<Rightarrow> Rectangle" where
  "Intersect r s =
     (let r' = \<lparr>MinP = Pt (if X (MinP r) < X (MinP s) then X (MinP s) else X (MinP r))
                          (if Y (MinP r) < Y (MinP s) then Y (MinP s) else Y (MinP r)),
                MaxP = Pt (if X (MaxP r) > X (MaxP s) then X (MaxP s) else X (MaxP r))
                          (if Y (MaxP r) > Y (MaxP s) then Y (MaxP s) else Y (MaxP r))\<rparr>
      in if Empty r' then ZR else r')"

definition AddPt :: "Rectangle \<Rightarrow> Point \<Rightarrow> Rectangle" where
  "AddPt r p = \<lparr>MinP = Pt (X (MinP r) + X p) (Y (MinP r) + Y p),
                MaxP = Pt (X (MaxP r) + X p) (Y (MaxP r) + Y p)\<rparr>"

record RGBA =
  Pix :: "uint8 list"
  Stride :: int
  Rect :: Rectangle

text \<open>
  A value of the interface \<^verbatim>\<open>image.Image\<close>: an \<^verbatim>\<open>*image.RGBA\<close>, or an image of any other
  type, given by its bounds and by the 16-bit alpha-premultiplied components that
  \<^verbatim>\<open>At(x, y).RGBA()\<close> returns.
\<close>

type_synonym colour16 = "16 word \<times> 16 word \<times> 16 word \<times> 16 word"
type_synonym colour8 = "uint8 \<times> uint8 \<times> uint8 \<times> uint8"

datatype Image = RGBAImage RGBA | OtherImage Rectangle "int \<Rightarrow> int \<Rightarrow> colour16"

fun Bounds :: "Image \<Rightarrow> Rectangle" where
  "Bounds (RGBAImage m) = Rect m"
| "Bounds (OtherImage r colourAt) = r"

text \<open>
  \<^verbatim>\<open>image.NewRGBA\<close> panics on a rectangle of negative width or height (and on one whose
  buffer length would not fit an \<^verbatim>\<open>int\<close>, which no rectangle here reaches).
\<close>

definition NewRGBA :: "Rectangle \<Rightarrow> panic + RGBA" where
  "NewRGBA r =
     (if Dx r < 0 \<or> Dy r < 0 then Inl HugeOrNegativeDimensions
      else Inr \<lparr>Pix = replicate (nat (4 * Dx r * Dy r)) 0, Stride = 4 * Dx r, Rect = r\<rparr>)"

definition PixOffset :: "RGBA \<Rightarrow> int \<Rightarrow> int \<Rightarrow> int" where
  "PixOffset m x y = (y - Y (MinP (Rect m))) * Stride m + (x - X (MinP (Rect m))) * 4"

definition readPix :: "uint8 list \<Rightarrow> int \<Rightarrow> panic + uint8" where
  "readPix pix i =
     (if 0 \<le> i \<and> i < int (length pix) then Inr (pix ! nat i) else Inl IndexOutOfRange)"

definition writePix :: "uint8 list \<Rightarrow> int \<Rightarrow> uint8 \<Rightarrow> panic + uint8 list" where
  "writePix pix i v =
     (if 0 \<le> i \<and> i < int (length pix) then Inr (pix[nat i := v]) else Inl IndexOutOfRange)"

definition readPixel :: "uint8 list \<Rightarrow> int \<Rightarrow> panic + colour8" where
  "readPixel pix i =
     bindR (readPix pix i) (\<lambda>r.
     bindR (readPix pix (i + 1)) (\<lambda>g.
     bindR (readPix pix (i + 2)) (\<lambda>b.
     bindR (readPix pix (i + 3)) (\<lambda>a. Inr (r, g, b, a)))))"

definition writePixel :: "uint8 list \<Rightarrow> int \<Rightarrow> colour8 \<Rightarrow> panic + uint8 list" where
  "writePixel pix i c =
     (case c of (r, g, b, a) \<Rightarrow>
        bindR (writePix pix i r) (\<lambda>p1.
        bindR (writePix p1 (i + 1) g) (\<lambda>p2.
        bindR (writePix p2 (i + 2) b) (\<lambda>p3.
        writePix p3 (i + 3) a))))"

subsection \<open>Package draw: \<^verbatim>\<open>draw.Draw(dst, r, src, sp, draw.Src)\<close> into an RGBA buffer\<close>

text \<open>
  The library clips \<open>r\<close> to the bounds of \<open>dst\<close> and to the bounds of \<open>src\<close> moved by
  \<open>r.Min - sp\<close>, and then copies: the pixel of \<open>dst\<close> at \<open>(x, y)\<close> becomes the pixel of
  \<open>src\<close> at \<open>sp + (x, y) - r.Min\<close>. An RGBA source is copied byte by byte; any other
  source is converted by the RGBA colour model, which keeps the high byte of each 16-bit
  component.
\<close>

definition colour8_of :: "colour16 \<Rightarrow> colour8" where
  "colour8_of c =
     (case c of (sr, sg, sb, sa) \<Rightarrow>
        (ucast (drop_bit 8 sr), ucast (drop_bit 8 sg), ucast (drop_bit 8 sb), ucast (drop_bit 8 sa)))"

definition srcColour8 :: "Image \<Rightarrow> int \<Rightarrow> int \<Rightarrow> panic + colour8" where
  "srcColour8 src sx sy =
     (case src of
        RGBAImage m \<Rightarrow> readPixel (Pix m) (PixOffset m sx sy)
      | OtherImage r colourAt \<Rightarrow> Inr (colour8_of (colourAt sx sy)))"

definition drawSrc :: "RGBA \<Rightarrow> Rectangle \<Rightarrow> Image \<Rightarrow> Point \<Rightarrow> panic + RGBA" where
  "drawSrc dst r src sp =
     (let orig = MinP r;
          r1 = Intersect r (Rect dst);
          r2 = Intersect r1 (AddPt (Bounds src) (Pt (X orig - X sp) (Y orig - Y sp)));
          sp' = Pt (X sp + (X (MinP r2) - X orig)) (Y sp + (Y (MinP r2) - Y orig))
      in if Empty r2 then Inr dst
         else bindR
           (forLoop (Y (MinP r2)) (Y (MaxP r2)) (\<lambda>y.
              forLoop (X (MinP r2)) (X (MaxP r2)) (\<lambda>x pix.
                bindR (srcColour8 src (X sp' + x - X (MinP r2)) (Y sp' + y - Y (MinP r2)))
                  (\<lambda>c. writePixel pix (PixOffset dst x y) c)))
              (Pix dst))
           (\<lambda>pix. Inr (dst\<lparr>Pix := pix\<rparr>)))"

subsection \<open>The grayscale engines\<close>

text \<open>
  The conversion that opens \<^verbatim>\<open>Grayscale\<close>, \<^verbatim>\<open>grayscaleParallel\<close> and \<^verbatim>\<open>grayscaleDirect\<close>:
  an \<^verbatim>\<open>*image.RGBA\<close> is used as it is, any other image is drawn onto a new RGBA buffer.
\<close>

definition toRGBA :: "Image \<Rightarrow> panic + RGBA" where
  "toRGBA img =
     (case img of
        RGBAImage m \<Rightarrow> Inr m
      | OtherImage r colourAt \<Rightarrow>
          bindR (NewRGBA (Bounds img)) (\<lambda>srcRGBA.
            drawSrc srcRGBA (Bounds img) img (MinP (Bounds img))))"

text \<open>The body of the innermost loop: four reads, the grey level, four writes.\<close>

definition grayscalePixel :: "uint8 list \<Rightarrow> int \<Rightarrow> int \<Rightarrow> uint8 list \<Rightarrow> panic + uint8 list" where
  "grayscalePixel spix srcIdx dstIdx dpix =
     bindR (readPixel spix srcIdx) (\<lambda>c.
       case c of (r, g, b, a) \<Rightarrow> writePixel dpix dstIdx (gray r g b, gray r g b, gray r g b, a))"

text \<open>\<^verbatim>\<open>Grayscale\<close>, from \<^verbatim>\<open>bounds := ip.currentImage.Bounds()\<close> to the end of the loops.\<close>

definition grayscaleImage :: "Image \<Rightarrow> panic + RGBA" where
  "grayscaleImage img =
     (let bounds = Bounds img in
      bindR (toRGBA img) (\<lambda>srcRGBA.
      bindR (NewRGBA bounds) (\<lambda>dstRGBA.
        let width = Dx bounds; height = Dy bounds in
        bindR
          (forLoop 0 height (\<lambda>y.
             let srcRowStart = y * Stride srcRGBA; dstRowStart = y * Stride dstRGBA in
             forLoop 0 width (\<lambda>x.
               grayscalePixel (Pix srcRGBA) (srcRowStart + x * 4) (dstRowStart + x * 4)))
             (Pix dstRGBA))
          (\<lambda>pix. Inr (dstRGBA\<lparr>Pix := pix\<rparr>)))))"

text \<open>\<^verbatim>\<open>grayscaleDirect\<close>: the same loops, reached from \<^verbatim>\<open>GrayscaleFast\<close>.\<close>

definition grayscaleDirectImage :: "Image \<Rightarrow> panic + RGBA" where
  "grayscaleDirectImage img =
     (let bounds = Bounds img; width = Dx bounds; height = Dy bounds in
      bindR (toRGBA img) (\<lambda>srcRGBA.
      bindR (NewRGBA bounds) (\<lambda>dstRGBA.
        bindR
          (forLoop 0 height (\<lambda>y.
             let rowStart = y * Stride srcRGBA; dstRowStart = y * Stride dstRGBA in
             forLoop 0 width (\<lambda>x.
               grayscalePixel (Pix srcRGBA) (rowStart + x * 4) (dstRowStart + x * 4)))
             (Pix dstRGBA))
          (\<lambda>pix. Inr (dstRGBA\<lparr>Pix := pix\<rparr>)))))"

record PerformanceOptions =
  MaxGoroutines :: int
  EnableParallelProcessing :: bool
  MinSizeForParallel :: int

definition DefaultPerformanceOptions :: "int \<Rightarrow> PerformanceOptions" where
  "DefaultPerformanceOptions numCPU =
     \<lparr>MaxGoroutines = numCPU, EnableParallelProcessing = True, MinSizeForParallel = 10000\<rparr>"

text \<open>The worker count of \<^verbatim>\<open>grayscaleParallel\<close>; \<open>numCPU\<close> is \<^verbatim>\<open>runtime.NumCPU()\<close>.\<close>

definition numGoroutines :: "int \<Rightarrow> PerformanceOptions \<Rightarrow> int \<Rightarrow> int" where
  "numGoroutines numCPU opts height =
     (let n = (if MaxGoroutines opts \<le> 0 then numCPU else MaxGoroutines opts)
      in if n > height then height else n)"

text \<open>The rows \<open>[startRow, endRow)\<close> of the goroutine \<open>goroutineID\<close>.\<close>

definition strip :: "int \<Rightarrow> int \<Rightarrow> int \<Rightarrow> int \<Rightarrow> int \<times> int" where
  "strip height n rowsPerGoroutine goroutineID =
     (let startRow = goroutineID * rowsPerGoroutine;
          endRow = startRow + rowsPerGoroutine
      in (startRow, if goroutineID = n - 1 then height else endRow))"

text \<open>Go's integer division truncates towards zero and panics on a zero divisor.\<close>

definition quo :: "int \<Rightarrow> int \<Rightarrow> panic + int" where
  "quo a b = (if b = 0 then Inl DivideByZero else Inr (sgn a * sgn b * (\<bar>a\<bar> div \<bar>b\<bar>)))"

text \<open>The function literal that each goroutine runs.\<close>

definition goroutine ::
    "Rectangle \<Rightarrow> RGBA \<Rightarrow> int \<Rightarrow> int \<Rightarrow> int \<Rightarrow> int \<Rightarrow> int \<Rightarrow> int \<Rightarrow> uint8 list \<Rightarrow> panic + uint8 list" where
  "goroutine bounds srcRGBA dstStride width height n rowsPerGoroutine goroutineID dpix =
     (case strip height n rowsPerGoroutine goroutineID of (startRow, endRow) \<Rightarrow>
        forLoop startRow endRow (\<lambda>y.
          let rowStart = (y - Y (MinP bounds)) * Stride srcRGBA + (0 - X (MinP bounds)) * 4 in
          forLoop 0 width (\<lambda>x.
            let pixelIdx = rowStart + x * 4;
                dstRowStart = (y - Y (MinP bounds)) * dstStride + (0 - X (MinP bounds)) * 4;
                dstPixelIdx = dstRowStart + x * 4
            in grayscalePixel (Pix srcRGBA) pixelIdx dstPixelIdx))
          dpix)"

text \<open>
  \<^verbatim>\<open>grayscaleParallel\<close>. The goroutines write disjoint rows of the destination and read
  only the source, so the buffer after \<^verbatim>\<open>wg.Wait()\<close> does not depend on their
  interleaving: they are run here one after the other, by goroutine number. A panic in
  any goroutine ends the program, and so does \<^verbatim>\<open>wg.Add\<close> of a negative count.
\<close>

definition grayscaleParallelImage :: "int \<Rightarrow> PerformanceOptions \<Rightarrow> Image \<Rightarrow> panic + RGBA" where
  "grayscaleParallelImage numCPU opts img =
     (let bounds = Bounds img; width = Dx bounds; height = Dy bounds in
      bindR (toRGBA img) (\<lambda>srcRGBA.
      bindR (NewRGBA bounds) (\<lambda>dstRGBA.
        let n = numGoroutines numCPU opts height in
        if n < 0 then Inl NegativeWaitGroupCounter
        else
          bindR (quo height n) (\<lambda>rowsPerGoroutine.
          bindR
            (forLoop 0 n
               (goroutine bounds srcRGBA (Stride dstRGBA) width height n rowsPerGoroutine)
               (Pix dstRGBA))
            (\<lambda>pix. Inr (dstRGBA\<lparr>Pix := pix\<rparr>))))))"

subsection \<open>Errors, formats and the external collaborators\<close>

text \<open>
  One constructor for each error that the package builds; the comment gives the text of
  its message. \<open>LibError\<close> is an error returned by a library outside the package.
\<close>

datatype error =
    LibError string
  | NilImage  \<comment> \<open>\<^verbatim>\<open>initial image cannot be nil\<close>\<close>
  | EmptyInput  \<comment> \<open>\<^verbatim>\<open>input byte slice is empty\<close>\<close>
  | DecodeFailed error  \<comment> \<open>\<^verbatim>\<open>failed to decode image: %w\<close>\<close>
  | NoImage  \<comment> \<open>\<^verbatim>\<open>no image available to convert to bytes\<close>\<close>
  | EncodeFailed error  \<comment> \<open>\<^verbatim>\<open>failed to encode image to bytes: %w\<close>\<close>
  | GIFNotSupported  \<comment> \<open>\<^verbatim>\<open>GIF encoding is not directly supported ...\<close>\<close>
  | UnsupportedFormat string  \<comment> \<open>\<^verbatim>\<open>unsupported image format for encoding: %s\<close>\<close>
  | CropDimensions int int  \<comment> \<open>\<^verbatim>\<open>crop dimensions must be positive (width: %d, height: %d)\<close>\<close>
  | CropOutOfBounds Rectangle Rectangle  \<comment> \<open>\<^verbatim>\<open>crop rectangle %v is out of image bounds %v\<close>\<close>
  | ResizeDimensions int int  \<comment> \<open>\<^verbatim>\<open>resize dimensions must be positive (width: %d, height: %d)\<close>\<close>
  | EmptyWatermarkText  \<comment> \<open>\<^verbatim>\<open>watermark text cannot be empty\<close>\<close>
  | FontParseFailed error  \<comment> \<open>\<^verbatim>\<open>failed to parse font bytes for watermark: %w\<close>\<close>
  | FontFaceFailed error  \<comment> \<open>\<^verbatim>\<open>failed to create font face for watermark: %w\<close>\<close>

text \<open>\<^verbatim>\<open>type ImageFormat int\<close>: every integer is a format tag, four of them are named.\<close>

type_synonym ImageFormat = int

definition FormatUnknown :: ImageFormat where "FormatUnknown = 0"
definition FormatJPEG :: ImageFormat where "FormatJPEG = 1"
definition FormatPNG :: ImageFormat where "FormatPNG = 2"
definition FormatGIF :: ImageFormat where "FormatGIF = 3"

definition String :: "ImageFormat \<Rightarrow> string" where
  "String f =
     (if f = FormatJPEG then ''jpeg''
      else if f = FormatPNG then ''png''
      else if f = FormatGIF then ''gif''
      else ''unknown'')"

record FaceMetrics =
  Height :: "32 word"
  Ascent :: "32 word"
  Descent :: "32 word"

text \<open>
  What the package calls outside itself: the number of CPUs, the decoder and the two
  encoders of the standard library, the Catmull-Rom scaler, and the font library. Each is
  a parameter of the model.
\<close>

record ('font, 'face) Library =
  NumCPU :: int
  imageDecode :: "uint8 list \<Rightarrow> error + Image"
  jpegEncode :: "Image \<Rightarrow> error + uint8 list"
  pngEncode :: "Image \<Rightarrow> error + uint8 list"
  CatmullRomScale :: "RGBA \<Rightarrow> Rectangle \<Rightarrow> Image \<Rightarrow> Rectangle \<Rightarrow> RGBA"
  goregularTTF :: "uint8 list"
  opentypeParse :: "uint8 list \<Rightarrow> error + 'font"
  opentypeNewFace :: "'font \<Rightarrow> rat \<Rightarrow> error + 'face"
  BoundString :: "'face \<Rightarrow> string \<Rightarrow> 32 word \<times> 32 word"
  Metrics :: "'face \<Rightarrow> FaceMetrics"
  DrawString :: "'face \<Rightarrow> colour16 \<Rightarrow> 32 word \<times> 32 word \<Rightarrow> string \<Rightarrow> RGBA \<Rightarrow> RGBA"

definition decodeImage :: "('font, 'face) Library \<Rightarrow> uint8 list \<Rightarrow> error + Image" where
  "decodeImage lib r =
     (case imageDecode lib r of Inl e \<Rightarrow> Inl (DecodeFailed e) | Inr img \<Rightarrow> Inr img)"

definition encodeImage ::
    "('font, 'face) Library \<Rightarrow> Image \<Rightarrow> ImageFormat \<Rightarrow> error + uint8 list" where
  "encodeImage lib img format =
     (if format = FormatJPEG then jpegEncode lib img
      else if format = FormatPNG then pngEncode lib img
      else if format = FormatGIF then Inl GIFNotSupported
      else Inl (UnsupportedFormat (String format)))"

definition newRGBA :: "Rectangle \<Rightarrow> panic + RGBA" where
  "newRGBA bounds = NewRGBA bounds"

subsection \<open>The earlier copy of \<^verbatim>\<open>Grayscale\<close>\<close>

text \<open>
  \<^verbatim>\<open>gopiq.go\<close> carries a second, earlier copy of the package, without the performance
  options. Its \<^verbatim>\<open>Grayscale\<close> reads every pixel with \<^verbatim>\<open>At\<close>, converts it with
  \<^verbatim>\<open>color.GrayModel\<close> and stores it with \<^verbatim>\<open>Set\<close>. The library's grey model takes the
  16-bit components, weights them with \<open>19595\<close>, \<open>38470\<close> and \<open>7471\<close> (out of \<open>65536\<close>)
  and rounds; \<^verbatim>\<open>Set\<close> of a \<^verbatim>\<open>color.Gray\<close> on an RGBA image stores an opaque grey pixel.
\<close>

definition rgba16_of :: "colour8 \<Rightarrow> colour16" where
  "rgba16_of c =
     (case c of (r, g, b, a) \<Rightarrow> (ucast r * 0x101, ucast g * 0x101, ucast b * 0x101, ucast a * 0x101))"

text \<open>\<^verbatim>\<open>img.At(x, y).RGBA()\<close>; outside its rectangle an RGBA image is transparent black.\<close>

definition colourAt16 :: "Image \<Rightarrow> int \<Rightarrow> int \<Rightarrow> panic + colour16" where
  "colourAt16 img x y =
     (case img of
        RGBAImage m \<Rightarrow>
          if \<not> PointIn (Pt x y) (Rect m) then Inr (0, 0, 0, 0)
          else bindR (readPixel (Pix m) (PixOffset m x y)) (\<lambda>c. Inr (rgba16_of c))
      | OtherImage r colourAt \<Rightarrow> Inr (colourAt x y))"

definition grayModelConvert :: "colour16 \<Rightarrow> uint8" where
  "grayModelConvert c =
     (case c of (r, g, b, a) \<Rightarrow>
        ucast (drop_bit 24
          (19595 * ucast r + 38470 * ucast g + 7471 * ucast b + 2 ^ 15 :: 32 word)))"

definition grayscaleEarlierImage :: "Image \<Rightarrow> panic + RGBA" where
  "grayscaleEarlierImage img =
     (let bounds = Bounds img in
      bindR (newRGBA bounds) (\<lambda>grayImg.
        bindR
          (forLoop (Y (MinP bounds)) (Y (MaxP bounds)) (\<lambda>y.
             forLoop (X (MinP bounds)) (X (MaxP bounds)) (\<lambda>x pix.
               bindR (colourAt16 img x y) (\<lambda>originalColor.
                 let grayColor = grayModelConvert originalColor in
                 if \<not> PointIn (Pt x y) (Rect grayImg) then Inr pix
                 else writePixel pix (PixOffset grayImg x y)
                        (grayColor, grayColor, grayColor, 255))))
             (Pix grayImg))
          (\<lambda>pix. Inr (grayImg\<lparr>Pix := pix\<rparr>))))"

subsection \<open>The processor and the store\<close>

text \<open>
  An \<^verbatim>\<open>*ImageProcessor\<close> and an \<^verbatim>\<open>image.Image\<close> are references: the store holds the
  processors and the images, an address is an index, and \<^verbatim>\<open>nil\<close> is \<open>None\<close>. A method
  takes the store and returns the store after it; it holds the processor's lock from its
  first statement to its return, so it runs as one step.
\<close>

record ImageProcessor =
  currentImage :: "nat option"
  err :: "error option"
  perfOpts :: PerformanceOptions

record store =
  procs :: "ImageProcessor list"
  images :: "Image list"

definition zeroPerformanceOptions :: PerformanceOptions where
  "zeroPerformanceOptions =
     \<lparr>MaxGoroutines = 0, EnableParallelProcessing = False, MinSizeForParallel = 0\<rparr>"

definition allocProc :: "ImageProcessor \<Rightarrow> store \<Rightarrow> nat \<times> store" where
  "allocProc p s = (length (procs s), s\<lparr>procs := procs s @ [p]\<rparr>)"

definition allocImage :: "Image \<Rightarrow> store \<Rightarrow> nat \<times> store" where
  "allocImage img s = (length (images s), s\<lparr>images := images s @ [img]\<rparr>)"

definition getProc :: "store \<Rightarrow> nat \<Rightarrow> panic + ImageProcessor" where
  "getProc s ip = (if ip < length (procs s) then Inr (procs s ! ip) else Inl NilDereference)"

definition setProc :: "store \<Rightarrow> nat \<Rightarrow> ImageProcessor \<Rightarrow> store" where
  "setProc s ip p = s\<lparr>procs := (procs s)[ip := p]\<rparr>"

text \<open>A method call on \<^verbatim>\<open>ip.currentImage\<close>: a nil interface panics.\<close>

definition getImage :: "store \<Rightarrow> nat option \<Rightarrow> panic + Image" where
  "getImage s r =
     (case r of
        None \<Rightarrow> Inl NilDereference
      | Some a \<Rightarrow> if a < length (images s) then Inr (images s ! a) else Inl NilDereference)"

text \<open>\<^verbatim>\<open>ip.currentImage = img\<close> for a new image \<open>img\<close>.\<close>

definition replaceImage :: "store \<Rightarrow> nat \<Rightarrow> ImageProcessor \<Rightarrow> RGBA \<Rightarrow> store" where
  "replaceImage s ip p img =
     (case allocImage (RGBAImage img) s of
        (a, s') \<Rightarrow> setProc s' ip (p\<lparr>currentImage := Some a\<rparr>))"

text \<open>The caller's image enters the store at a new address.\<close>

definition New :: "('font, 'face) Library \<Rightarrow> Image option \<Rightarrow> store \<Rightarrow> nat \<times> store" where
  "New lib img s =
     (case img of
        None \<Rightarrow>
          allocProc \<lparr>currentImage = None, err = Some NilImage, perfOpts = zeroPerformanceOptions\<rparr> s
      | Some i \<Rightarrow>
          (case allocImage i s of
             (a, s') \<Rightarrow>
               allocProc \<lparr>currentImage = Some a, err = None,
                          perfOpts = DefaultPerformanceOptions (NumCPU lib)\<rparr> s'))"

definition NewWithPerformanceOptions ::
    "Image option \<Rightarrow> PerformanceOptions \<Rightarrow> store \<Rightarrow> nat \<times> store" where
  "NewWithPerformanceOptions img opts s =
     (case img of
        None \<Rightarrow>
          allocProc \<lparr>currentImage = None, err = Some NilImage, perfOpts = zeroPerformanceOptions\<rparr> s
      | Some i \<Rightarrow>
          (case allocImage i s of
             (a, s') \<Rightarrow> allocProc \<lparr>currentImage = Some a, err = None, perfOpts = opts\<rparr> s'))"

definition SetPerformanceOptions ::
    "nat \<Rightarrow> PerformanceOptions \<Rightarrow> store \<Rightarrow> panic + nat \<times> store" where
  "SetPerformanceOptions ip opts s =
     bindR (getProc s ip) (\<lambda>p. Inr (ip, setProc s ip (p\<lparr>perfOpts := opts\<rparr>)))"

definition FromBytes :: "('font, 'face) Library \<Rightarrow> uint8 list \<Rightarrow> store \<Rightarrow> nat \<times> store" where
  "FromBytes lib data s =
     (if length data = 0
      then allocProc \<lparr>currentImage = None, err = Some EmptyInput,
                      perfOpts = zeroPerformanceOptions\<rparr> s
      else
        (case decodeImage lib data of
           Inl e \<Rightarrow>
             allocProc \<lparr>currentImage = None, err = Some e, perfOpts = zeroPerformanceOptions\<rparr> s
         | Inr img \<Rightarrow>
             (case allocImage img s of
                (a, s') \<Rightarrow>
                  allocProc \<lparr>currentImage = Some a, err = None,
                             perfOpts = DefaultPerformanceOptions (NumCPU lib)\<rparr> s')))"

definition ToBytes ::
    "('font, 'face) Library \<Rightarrow> nat \<Rightarrow> ImageFormat \<Rightarrow> store \<Rightarrow> panic + (error + uint8 list)" where
  "ToBytes lib ip format s =
     bindR (getProc s ip) (\<lambda>p.
       case err p of
         Some e \<Rightarrow> Inr (Inl e)
       | None \<Rightarrow>
           (case currentImage p of
              None \<Rightarrow> Inr (Inl NoImage)
            | Some a \<Rightarrow>
                bindR (getImage s (Some a)) (\<lambda>img.
                  case encodeImage lib img format of
                    Inl e \<Rightarrow> Inr (Inl (EncodeFailed e))
                  | Inr buf \<Rightarrow> Inr (Inr buf))))"

text \<open>The method \<^verbatim>\<open>Image()\<close>.\<close>

definition ImageMethod :: "nat \<Rightarrow> store \<Rightarrow> panic + (nat option \<times> error option)" where
  "ImageMethod ip s = bindR (getProc s ip) (\<lambda>p. Inr (currentImage p, err p))"

definition Err :: "nat \<Rightarrow> store \<Rightarrow> panic + error option" where
  "Err ip s = bindR (getProc s ip) (\<lambda>p. Inr (err p))"

definition Clone :: "nat \<Rightarrow> store \<Rightarrow> panic + nat \<times> store" where
  "Clone ip s =
     bindR (getProc s ip) (\<lambda>p.
       Inr (allocProc \<lparr>currentImage = currentImage p, err = err p, perfOpts = perfOpts p\<rparr> s))"

subsection \<open>The chainable methods\<close>

definition Crop :: "nat \<Rightarrow> int \<Rightarrow> int \<Rightarrow> int \<Rightarrow> int \<Rightarrow> store \<Rightarrow> panic + nat \<times> store" where
  "Crop ip x y width height s =
     bindR (getProc s ip) (\<lambda>p.
       if err p \<noteq> None then Inr (ip, s)
       else if width \<le> 0 \<or> height \<le> 0
       then Inr (ip, setProc s ip (p\<lparr>err := Some (CropDimensions width height)\<rparr>))
       else
         bindR (getImage s (currentImage p)) (\<lambda>img.
           let bounds = Bounds img;
               cropRect = image_Rect x y (x + width) (y + height)
           in if \<not> In cropRect bounds
              then Inr (ip, setProc s ip (p\<lparr>err := Some (CropOutOfBounds cropRect bounds)\<rparr>))
              else
                bindR (newRGBA (image_Rect 0 0 width height)) (\<lambda>croppedImg.
                bindR (drawSrc croppedImg (Rect croppedImg) img (MinP cropRect)) (\<lambda>croppedImg'.
                  Inr (ip, replaceImage s ip p croppedImg')))))"

definition Resize ::
    "('font, 'face) Library \<Rightarrow> nat \<Rightarrow> int \<Rightarrow> int \<Rightarrow> store \<Rightarrow> panic + nat \<times> store" where
  "Resize lib ip width height s =
     bindR (getProc s ip) (\<lambda>p.
       if err p \<noteq> None then Inr (ip, s)
       else if width \<le> 0 \<or> height \<le> 0
       then Inr (ip, setProc s ip (p\<lparr>err := Some (ResizeDimensions width height)\<rparr>))
       else
         bindR (getImage s (currentImage p)) (\<lambda>img.
           let originalBounds = Bounds img;
               dstRect = image_Rect 0 0 width height
           in bindR (newRGBA dstRect) (\<lambda>newImg.
                Inr (ip, replaceImage s ip p
                           (CatmullRomScale lib newImg dstRect img originalBounds)))))"

definition Grayscale :: "nat \<Rightarrow> store \<Rightarrow> panic + nat \<times> store" where
  "Grayscale ip s =
     bindR (getProc s ip) (\<lambda>p.
       if err p \<noteq> None then Inr (ip, s)
       else
         bindR (getImage s (currentImage p)) (\<lambda>img.
         bindR (grayscaleImage img) (\<lambda>dstRGBA. Inr (ip, replaceImage s ip p dstRGBA))))"

definition grayscaleParallel ::
    "('font, 'face) Library \<Rightarrow> nat \<Rightarrow> store \<Rightarrow> panic + nat \<times> store" where
  "grayscaleParallel lib ip s =
     bindR (getProc s ip) (\<lambda>p.
     bindR (getImage s (currentImage p)) (\<lambda>img.
     bindR (grayscaleParallelImage (NumCPU lib) (perfOpts p) img) (\<lambda>dstRGBA.
       Inr (ip, replaceImage s ip p dstRGBA))))"

definition grayscaleDirect :: "nat \<Rightarrow> store \<Rightarrow> panic + nat \<times> store" where
  "grayscaleDirect ip s =
     bindR (getProc s ip) (\<lambda>p.
     bindR (getImage s (currentImage p)) (\<lambda>img.
     bindR (grayscaleDirectImage img) (\<lambda>dstRGBA. Inr (ip, replaceImage s ip p dstRGBA))))"

definition GrayscaleFast ::
    "('font, 'face) Library \<Rightarrow> nat \<Rightarrow> store \<Rightarrow> panic + nat \<times> store" where
  "GrayscaleFast lib ip s =
     bindR (getProc s ip) (\<lambda>p.
       if err p \<noteq> None then Inr (ip, s)
       else
         bindR (getImage s (currentImage p)) (\<lambda>img.
           let bounds = Bounds img; width = Dx bounds; height = Dy bounds in
           if EnableParallelProcessing (perfOpts p) \<and>
              width * height \<ge> MinSizeForParallel (perfOpts p)
           then grayscaleParallel lib ip s
           else grayscaleDirect ip s))"

subsection \<open>The text watermark\<close>

text \<open>\<^verbatim>\<open>type WatermarkPosition int\<close>, with five named values.\<close>

type_synonym WatermarkPosition = int

definition PositionTopLeft :: WatermarkPosition where "PositionTopLeft = 0"
definition PositionTopRight :: WatermarkPosition where "PositionTopRight = 1"
definition PositionBottomLeft :: WatermarkPosition where "PositionBottomLeft = 2"
definition PositionBottomRight :: WatermarkPosition where "PositionBottomRight = 3"
definition PositionCenter :: WatermarkPosition where "PositionCenter = 4"

record watermarkConfig =
  Text :: string
  FontPath :: string
  FontBytes :: "uint8 list"
  FontSize :: rat
  Color :: colour16
  Position :: WatermarkPosition
  OffsetX :: rat
  OffsetY :: rat

text \<open>The default colour is \<^verbatim>\<open>color.RGBA{255, 255, 255, 128}\<close>.\<close>

definition defaultWatermarkConfig :: "('font, 'face) Library \<Rightarrow> watermarkConfig" where
  "defaultWatermarkConfig lib =
     \<lparr>Text = [], FontPath = [], FontBytes = goregularTTF lib, FontSize = 24,
      Color = (0xFFFF, 0xFFFF, 0xFFFF, 0x8080), Position = PositionBottomRight,
      OffsetX = 10, OffsetY = 10\<rparr>"

type_synonym WatermarkOption = "watermarkConfig \<Rightarrow> watermarkConfig"

definition WithFontPath :: "string \<Rightarrow> WatermarkOption" where
  "WithFontPath path wc = wc\<lparr>FontPath := path\<rparr>"

definition WithFontBytes :: "uint8 list \<Rightarrow> WatermarkOption" where
  "WithFontBytes data wc = wc\<lparr>FontBytes := data\<rparr>"

definition WithFontSize :: "rat \<Rightarrow> WatermarkOption" where
  "WithFontSize sz wc = wc\<lparr>FontSize := sz\<rparr>"

definition WithColor :: "colour16 \<Rightarrow> WatermarkOption" where
  "WithColor c wc = wc\<lparr>Color := c\<rparr>"

definition WithPosition :: "WatermarkPosition \<Rightarrow> WatermarkOption" where
  "WithPosition pos wc = wc\<lparr>Position := pos\<rparr>"

definition WithOffset :: "rat \<Rightarrow> rat \<Rightarrow> WatermarkOption" where
  "WithOffset x y wc = wc\<lparr>OffsetX := x, OffsetY := y\<rparr>"

text \<open>A 26.6 fixed-point number as a float64 number of pixels: \<^verbatim>\<open>float64(v) / 64\<close>.\<close>

definition pixels :: "32 word \<Rightarrow> rat" where
  "pixels v = fdiv (of_int (sint v)) 64"

text \<open>The \<^verbatim>\<open>switch cfg.Position\<close>: the float64 coordinates of the text's origin.\<close>

definition watermarkXY ::
    "watermarkConfig \<Rightarrow> Rectangle \<Rightarrow> rat \<Rightarrow> rat \<Rightarrow> FaceMetrics \<Rightarrow> rat \<times> rat" where
  "watermarkXY cfg bounds textWidth textHeight m =
     (if Position cfg = PositionTopLeft
      then (OffsetX cfg, fadd (OffsetY cfg) (pixels (Ascent m)))
      else if Position cfg = PositionTopRight
      then (fsub (fsub (float64 (of_int (Dx bounds))) textWidth) (OffsetX cfg),
            fadd (OffsetY cfg) (pixels (Ascent m)))
      else if Position cfg = PositionBottomLeft
      then (OffsetX cfg,
            fsub (fsub (float64 (of_int (Dy bounds))) (OffsetY cfg)) (pixels (Descent m)))
      else if Position cfg = PositionBottomRight
      then (fsub (fsub (float64 (of_int (Dx bounds))) textWidth) (OffsetX cfg),
            fsub (fsub (float64 (of_int (Dy bounds))) (OffsetY cfg)) (pixels (Descent m)))
      else if Position cfg = PositionCenter
      then (fdiv (fsub (float64 (of_int (Dx bounds))) textWidth) 2,
            fadd (fdiv (fsub (float64 (of_int (Dy bounds))) textHeight) 2) (pixels (Ascent m)))
      else (0, 0))"

text \<open>\<^verbatim>\<open>fixed.I(i)\<close> is \<^verbatim>\<open>Int26_6(i << 6)\<close>, a 32-bit number.\<close>

definition fixed_I :: "int \<Rightarrow> 32 word" where
  "fixed_I i = word_of_int (i * 64)"

definition AddTextWatermark ::
    "('font, 'face) Library \<Rightarrow> nat \<Rightarrow> string \<Rightarrow> WatermarkOption list \<Rightarrow> store \<Rightarrow>
     panic + nat \<times> store" where
  "AddTextWatermark lib ip text options s =
     bindR (getProc s ip) (\<lambda>p.
       if err p \<noteq> None then Inr (ip, s)
       else if text = [] then Inr (ip, setProc s ip (p\<lparr>err := Some EmptyWatermarkText\<rparr>))
       else
         let cfg = fold (\<lambda>opt c. opt c) options ((defaultWatermarkConfig lib)\<lparr>Text := text\<rparr>) in
         case opentypeParse lib (FontBytes cfg) of
           Inl e \<Rightarrow> Inr (ip, setProc s ip (p\<lparr>err := Some (FontParseFailed e)\<rparr>))
         | Inr fnt \<Rightarrow>
             (case opentypeNewFace lib fnt (FontSize cfg) of
                Inl e \<Rightarrow> Inr (ip, setProc s ip (p\<lparr>err := Some (FontFaceFailed e)\<rparr>))
              | Inr face \<Rightarrow>
                  bindR (getImage s (currentImage p)) (\<lambda>img.
                    let bounds = Bounds img in
                    bindR (newRGBA bounds) (\<lambda>imgWithWatermark.
                    bindR (drawSrc imgWithWatermark bounds img (MinP bounds)) (\<lambda>copied.
                      let textBounds = BoundString lib face (Text cfg);
                          textWidth = pixels (snd textBounds - fst textBounds);
                          textHeight = pixels (Height (Metrics lib face));
                          xy = watermarkXY cfg bounds textWidth textHeight (Metrics lib face);
                          dot = (fixed_I (truncInt (fst xy)), fixed_I (truncInt (snd xy)))
                      in Inr (ip, replaceImage s ip p
                                (DrawString lib face (Color cfg) dot (Text cfg) copied)))))))"

subsection \<open>Chains of calls\<close>

text \<open>
  A call of a chainable method, and a chain \<^verbatim>\<open>ip.A(...).B(...)\<close>: each method returns the
  processor that the next one is called on.
\<close>

datatype call =
    CallCrop int int int int
  | CallResize int int
  | CallGrayscale
  | CallGrayscaleFast
  | CallAddTextWatermark string "WatermarkOption list"

fun invoke :: "('font, 'face) Library \<Rightarrow> call \<Rightarrow> nat \<Rightarrow> store \<Rightarrow> panic + nat \<times> store" where
  "invoke lib (CallCrop x y width height) ip s = Crop ip x y width height s"
| "invoke lib (CallResize width height) ip s = Resize lib ip width height s"
| "invoke lib CallGrayscale ip s = Grayscale ip s"
| "invoke lib CallGrayscaleFast ip s = GrayscaleFast lib ip s"
| "invoke lib (CallAddTextWatermark text options) ip s = AddTextWatermark lib ip text options s"

fun chain :: "('font, 'face) Library \<Rightarrow> call list \<Rightarrow> nat \<Rightarrow> store \<Rightarrow> panic + nat \<times> store" where
  "chain lib [] ip s = Inr (ip, s)"
| "chain lib (c # cs) ip s =
     (case invoke lib c ip s of Inl e \<Rightarrow> Inl e | Inr (ip', s') \<Rightarrow> chain lib cs ip' s')"

definition emptyStore :: store where
  "emptyStore = \<lparr>procs = [], images = []\<rparr>"

text \<open>
  The stores that a program reaches with the constructors and the methods of the package,
  from the store with no processor.
\<close>

inductive reachable :: "('font, 'face) Library \<Rightarrow> store \<Rightarrow> bool" for lib where
  reach_empty: "reachable lib emptyStore"
| reach_New: "reachable lib s \<Longrightarrow> New lib img s = (ip, s') \<Longrightarrow> reachable lib s'"
| reach_NewWithPerformanceOptions:
    "reachable lib s \<Longrightarrow> NewWithPerformanceOptions img opts s = (ip, s') \<Longrightarrow> reachable lib s'"
| reach_FromBytes: "reachable lib s \<Longrightarrow> FromBytes lib data s = (ip, s') \<Longrightarrow> reachable lib s'"
| reach_SetPerformanceOptions:
    "reachable lib s \<Longrightarrow> SetPerformanceOptions ip opts s = Inr (ip', s') \<Longrightarrow> reachable lib s'"
| reach_Clone: "reachable lib s \<Longrightarrow> Clone ip s = Inr (ip', s') \<Longrightarrow> reachable lib s'"
| reach_invoke: "reachable lib s \<Longrightarrow> invoke lib c ip s = Inr (ip', s') \<Longrightarrow> reachable lib s'"

subsection \<open>A sample of the collaborators\<close>

text \<open>
  An instance of the library for evaluating the model at concrete inputs. Its encoders
  make the size checks of the standard library: \<^verbatim>\<open>png.Encode\<close> rejects an image whose
  width or height is not positive or is \<open>2^32\<close> or more, \<^verbatim>\<open>jpeg.Encode\<close> one whose width
  or height is \<open>2^16\<close> or more. The bytes of an encoded image play no part here and are
  left empty; the scaler and the text drawer leave their destination as it is.
\<close>

definition samplePngEncode :: "Image \<Rightarrow> error + uint8 list" where
  "samplePngEncode m =
     (let mw = Dx (Bounds m); mh = Dy (Bounds m)
      in if mw \<le> 0 \<or> mh \<le> 0 \<or> mw \<ge> 2 ^ 32 \<or> mh \<ge> 2 ^ 32
         then Inl (LibError ''png: invalid format: invalid image size'')
         else Inr [])"

definition sampleJpegEncode :: "Image \<Rightarrow> error + uint8 list" where
  "sampleJpegEncode m =
     (if Dx (Bounds m) \<ge> 2 ^ 16 \<or> Dy (Bounds m) \<ge> 2 ^ 16
      then Inl (LibError ''jpeg: image is too large to encode'')
      else Inr [])"

definition sampleLibrary :: "(unit, unit) Library" where
  "sampleLibrary =
     \<lparr>NumCPU = 4,
      imageDecode = (\<lambda>data. Inl (LibError ''image: unknown format'')),
      jpegEncode = sampleJpegEncode,
      pngEncode = samplePngEncode,
      CatmullRomScale = (\<lambda>dst dr src sr. dst),
      goregularTTF = [],
      opentypeParse = (\<lambda>data. Inr ()),
      opentypeNewFace = (\<lambda>fnt sz. Inr ()),
      BoundString = (\<lambda>face text. (0, 0)),
      Metrics = (\<lambda>face. \<lparr>Height = 0, Ascent = 0, Descent = 0\<rparr>),
      DrawString = (\<lambda>face c dot text dst. dst)\<rparr>"

subsection \<open>Sample stores\<close>

text \<open>A one-pixel RGBA image with its corner at \<open>(x0, y0)\<close>.\<close>

definition onePixel :: "int \<Rightarrow> int \<Rightarrow> colour8 \<Rightarrow> RGBA" where
  "onePixel x0 y0 c =
     (case c of (r, g, b, a) \<Rightarrow>
        \<lparr>Pix = [r, g, b, a], Stride = 4, Rect = image_Rect x0 y0 (x0 + 1) (y0 + 1)\<rparr>)"

text \<open>The store after \<^verbatim>\<open>New(nil)\<close>: processor 0 is born with a latched error.\<close>

definition failedStore :: store where
  "failedStore = snd (New sampleLibrary None emptyStore)"

text \<open>The store after \<^verbatim>\<open>New(img)\<close> for a one-pixel image: processor 0 holds image 0.\<close>

definition readyStore :: "colour8 \<Rightarrow> store" where
  "readyStore c = snd (New sampleLibrary (Some (RGBAImage (onePixel 0 0 c))) emptyStore)"

subsection \<open>What a caller observes\<close>

text \<open>
  Every reference of a processor points into the store, and a processor without a latched
  error has a current image.
\<close>

definition validProc :: "store \<Rightarrow> ImageProcessor \<Rightarrow> bool" where
  "validProc s p \<longleftrightarrow>
     (case currentImage p of None \<Rightarrow> err p \<noteq> None | Some a \<Rightarrow> a < length (images s))"

definition validStore :: "store \<Rightarrow> bool" where
  "validStore s \<longleftrightarrow> list_all (validProc s) (procs s)"

text \<open>
  What the accessors show of a processor: the image behind its reference, its latched
  error and its options.
\<close>

definition observable ::
    "store \<Rightarrow> nat \<Rightarrow> panic + (Image option \<times> error option \<times> PerformanceOptions)" where
  "observable s ip =
     bindR (getProc s ip) (\<lambda>p.
       Inr (case currentImage p of
              None \<Rightarrow> None
            | Some a \<Rightarrow> (case getImage s (Some a) of Inl e \<Rightarrow> None | Inr img \<Rightarrow> Some img),
            err p, perfOpts p))"

text \<open>The current image of the processor that a call returns, when it returns.\<close>

definition resultImage :: "panic + nat \<times> store \<Rightarrow> Image option" where
  "resultImage r =
     (case r of
        Inl e \<Rightarrow> None
      | Inr (ip, s) \<Rightarrow> (case observable s ip of Inl e \<Rightarrow> None | Inr (img, e, opts) \<Rightarrow> img))"

text \<open>The methods that take the write lock.\<close>

datatype writeCall = Chainable call | SetOptions PerformanceOptions

fun perform :: "('font, 'face) Library \<Rightarrow> writeCall \<Rightarrow> nat \<Rightarrow> store \<Rightarrow> panic + nat \<times> store" where
  "perform lib (Chainable c) ip s = invoke lib c ip s"
| "perform lib (SetOptions opts) ip s = SetPerformanceOptions ip opts s"

fun performAll ::
    "('font, 'face) Library \<Rightarrow> writeCall list \<Rightarrow> nat \<Rightarrow> store \<Rightarrow> panic + nat \<times> store" where
  "performAll lib [] ip s = Inr (ip, s)"
| "performAll lib (w # ws) ip s =
     (case perform lib w ip s of Inl e \<Rightarrow> Inl e | Inr (ip', s') \<Rightarrow> performAll lib ws ip' s')"

text \<open>The store after \<^verbatim>\<open>New(image.NewRGBA(image.Rect(0, 0, 0, 0)))\<close>.\<close>

definition emptyImageStore :: store where
  "emptyImageStore =
     snd (New sampleLibrary
            (Some (RGBAImage \<lparr>Pix = [], Stride = 0, Rect = image_Rect 0 0 0 0\<rparr>)) emptyStore)"

text \<open>The row \<open>y\<close> belongs to the goroutine \<open>i\<close>.\<close>

definition inStrip :: "int \<Rightarrow> int \<Rightarrow> int \<Rightarrow> int \<Rightarrow> int \<Rightarrow> bool" where
  "inStrip height n r i y \<longleftrightarrow> fst (strip height n r i) \<le> y \<and> y < snd (strip height n r i)"

subsection \<open>Well-formed images\<close>

text \<open>
  The buffer of an RGBA image holds every pixel of its rectangle: a row is at least as
  long as the rectangle is wide, and the last row ends inside \<open>Pix\<close>. The images that
  \<^verbatim>\<open>image.NewRGBA\<close>, \<^verbatim>\<open>SubImage\<close> and the decoders build are of this kind.
\<close>

definition wfRGBA :: "RGBA \<Rightarrow> bool" where
  "wfRGBA m \<longleftrightarrow>
     0 \<le> Dx (Rect m) \<and> 0 \<le> Dy (Rect m) \<and> 4 * Dx (Rect m) \<le> Stride m \<and>
     (Dy (Rect m) - 1) * Stride m + 4 * Dx (Rect m) \<le> int (length (Pix m))"

fun wfImage :: "Image \<Rightarrow> bool" where
  "wfImage (RGBAImage m) = wfRGBA m"
| "wfImage (OtherImage r colourAt) = (0 \<le> Dx r \<and> 0 \<le> Dy r)"

text \<open>The pixel that the grayscale engines write for a pixel of the source.\<close>

definition grayColour :: "colour8 \<Rightarrow> colour8" where
  "grayColour c = (case c of (r, g, b, a) \<Rightarrow> (gray r g b, gray r g b, gray r g b, a))"

text \<open>
  The store after \<^verbatim>\<open>NewWithPerformanceOptions(img, opts)\<close> where \<open>opts\<close> sends every image
  to the parallel engine with one goroutine, for a one-pixel image whose rectangle is
  \<open>(0, 1)-(1, 2)\<close>, and for an image without pixels.
\<close>

definition alwaysParallel :: PerformanceOptions where
  "alwaysParallel =
     \<lparr>MaxGoroutines = 1, EnableParallelProcessing = True, MinSizeForParallel = 0\<rparr>"

definition shiftedStore :: store where
  "shiftedStore =
     snd (NewWithPerformanceOptions (Some (RGBAImage (onePixel 0 1 (0, 10, 0, 255))))
            alwaysParallel emptyStore)"

definition noRowsStore :: store where
  "noRowsStore =
     snd (NewWithPerformanceOptions
            (Some (RGBAImage \<lparr>Pix = [], Stride = 0, Rect = image_Rect 0 0 0 0\<rparr>))
            alwaysParallel emptyStore)"

section \<open>Properties\<close>

subsection \<open>Sequencing\<close>

lemma bindR_Inr [simp]: "bindR (Inr v) f = f v"
  by (simp add: bindR_def)

lemma bindR_Inl [simp]: "bindR (Inl e) f = Inl e"
  by (simp add: bindR_def)

lemma bindR_eq_Inr: "bindR m f = Inr w \<longleftrightarrow> (\<exists>v. m = Inr v \<and> f v = Inr w)"
  by (cases m) simp_all

subsection \<open>The first error stays\<close>

lemma invoke_failed:
  assumes "getProc s ip = Inr p" and "err p = Some e"
  shows "invoke lib c ip s = Inr (ip, s)"
  using assms
  by (cases c)
     (simp_all add: Crop_def Resize_def Grayscale_def GrayscaleFast_def AddTextWatermark_def)

lemma failedStore_proc:
  "getProc failedStore 0 =
     Inr \<lparr>currentImage = None, err = Some NilImage, perfOpts = zeroPerformanceOptions\<rparr>"
  by (simp add: failedStore_def New_def allocProc_def emptyStore_def getProc_def)

lemma readyStore_proc:
  "getProc (readyStore c) 0 =
     Inr \<lparr>currentImage = Some 0, err = None, perfOpts = DefaultPerformanceOptions 4\<rparr>"
  by (simp add: readyStore_def New_def allocProc_def allocImage_def emptyStore_def getProc_def
      sampleLibrary_def)

lemma readyStore_images: "images (readyStore c) = [RGBAImage (onePixel 0 0 c)]"
  by (simp add: readyStore_def New_def allocProc_def allocImage_def emptyStore_def)

text \<open>
  Claim C3. On a processor whose latched error is set, every chain of calls of \<^verbatim>\<open>Crop\<close>,
  \<^verbatim>\<open>Resize\<close>, \<^verbatim>\<open>Grayscale\<close>, \<^verbatim>\<open>GrayscaleFast\<close> and \<^verbatim>\<open>AddTextWatermark\<close> returns the same
  processor and leaves the whole store as it was: the latched error, the current image
  and everything else are unchanged, and no later call overwrites the first error.
\<close>

theorem sticky_first_error:
  assumes "getProc s ip = Inr p" and "err p = Some e"
  shows "chain lib cs ip s = Inr (ip, s)"
  using assms by (induction cs) (simp_all add: invoke_failed)

theorem sticky_first_error_witness:
  "getProc failedStore 0 =
     Inr \<lparr>currentImage = None, err = Some NilImage, perfOpts = zeroPerformanceOptions\<rparr> \<and>
   chain sampleLibrary
     [CallCrop 10 10 10 10, CallResize 0 0, CallGrayscale, CallGrayscaleFast,
      CallAddTextWatermark [] []] 0 failedStore = Inr (0, failedStore)"
  by (intro conjI failedStore_proc sticky_first_error [OF failedStore_proc]) simp

subsection \<open>Invalid dimensions\<close>

text \<open>
  Claim C7. On a processor with no latched error, \<^verbatim>\<open>Crop\<close> and \<^verbatim>\<open>Resize\<close> with a width or
  a height that is not positive latch the invalid-dimensions error and change nothing
  else: the processor keeps its current image and its options, and no image of the store
  is replaced or modified.
\<close>

theorem invalid_dimensions_latched:
  assumes "getProc s ip = Inr p" and "err p = None" and "width \<le> 0 \<or> height \<le> 0"
  shows "(\<exists>s'. Crop ip x y width height s = Inr (ip, s') \<and>
            getProc s' ip = Inr (p\<lparr>err := Some (CropDimensions width height)\<rparr>) \<and>
            images s' = images s) \<and>
         (\<exists>s'. Resize lib ip width height s = Inr (ip, s') \<and>
            getProc s' ip = Inr (p\<lparr>err := Some (ResizeDimensions width height)\<rparr>) \<and>
            images s' = images s)"
  using assms
  by (auto simp add: Crop_def Resize_def setProc_def getProc_def split: if_splits)

theorem invalid_dimensions_latched_witness:
  "getProc (readyStore (1, 2, 3, 4)) 0 =
     Inr \<lparr>currentImage = Some 0, err = None, perfOpts = DefaultPerformanceOptions 4\<rparr> \<and>
   (\<exists>s'. Crop 0 0 0 0 50 (readyStore (1, 2, 3, 4)) = Inr (0, s') \<and>
      getProc s' 0 =
        Inr \<lparr>currentImage = Some 0, err = Some (CropDimensions 0 50),
               perfOpts = DefaultPerformanceOptions 4\<rparr> \<and>
      images s' = images (readyStore (1, 2, 3, 4))) \<and>
   (\<exists>s'. Resize sampleLibrary 0 50 (- 10) (readyStore (1, 2, 3, 4)) = Inr (0, s') \<and>
      getProc s' 0 =
        Inr \<lparr>currentImage = Some 0, err = Some (ResizeDimensions 50 (- 10)),
               perfOpts = DefaultPerformanceOptions 4\<rparr> \<and>
      images s' = images (readyStore (1, 2, 3, 4)))"
  using invalid_dimensions_latched
      [OF readyStore_proc [of "(1, 2, 3, 4)"], where width = 0 and height = 50 and x = 0
        and y = 0 and lib = sampleLibrary]
    invalid_dimensions_latched
      [OF readyStore_proc [of "(1, 2, 3, 4)"], where width = 50 and height = "- 10"
        and x = 0 and y = 0 and lib = sampleLibrary]
    readyStore_proc [of "(1, 2, 3, 4)"]
  by simp

subsection \<open>The invariant of the store\<close>

lemma invoke_shape:
  assumes "invoke lib c ip s = Inr (ip', s')"
  shows "ip' = ip \<and>
         (\<exists>p. getProc s ip = Inr p \<and>
            (s' = s \<or> (\<exists>e. err p = None \<and> s' = setProc s ip (p\<lparr>err := Some e\<rparr>)) \<or>
             (\<exists>img. err p = None \<and> (\<exists>a. currentImage p = Some a \<and> a < length (images s)) \<and>
                s' = replaceImage s ip p img)))"
proof (cases c)
  case (CallCrop x y w h)
  with assms show ?thesis
    by (auto simp: Crop_def bindR_eq_Inr Let_def getImage_def split: if_splits option.splits)
next
  case (CallResize w h)
  with assms show ?thesis
    by (auto simp: Resize_def bindR_eq_Inr Let_def getImage_def split: if_splits option.splits)
next
  case CallGrayscale
  with assms show ?thesis
    by (auto simp: Grayscale_def bindR_eq_Inr Let_def getImage_def split: if_splits option.splits)
next
  case CallGrayscaleFast
  with assms show ?thesis
    by (auto simp: GrayscaleFast_def grayscaleParallel_def grayscaleDirect_def bindR_eq_Inr
        Let_def getImage_def split: if_splits option.splits)
next
  case (CallAddTextWatermark str os)
  with assms show ?thesis
    by (auto simp: AddTextWatermark_def bindR_eq_Inr Let_def getImage_def
        split: if_splits option.splits sum.splits)
qed

lemma validProc_more_images:
  "validProc s p \<Longrightarrow> length (images s) \<le> length (images s') \<Longrightarrow> validProc s' p"
  by (auto simp: validProc_def split: option.splits)

lemma validStore_iff: "validStore s \<longleftrightarrow> (\<forall>p \<in> set (procs s). validProc s p)"
  by (simp add: validStore_def list_all_iff)

lemma validStore_allocProc:
  assumes "validStore s" and "validProc s p" and "allocProc p s = (ip, s')"
  shows "validStore s'"
proof -
  from assms(3) have s': "procs s' = procs s @ [p]" "images s' = images s"
    by (auto simp: allocProc_def)
  show ?thesis
    unfolding validStore_iff s'
    using assms(1,2) s'(2) by (auto simp: validStore_iff intro: validProc_more_images)
qed

lemma validStore_allocImage:
  assumes "validStore s" and "allocImage img s = (a, s')"
  shows "validStore s'" and "a < length (images s')" and "procs s' = procs s"
proof -
  from assms(2) have s': "procs s' = procs s" "images s' = images s @ [img]" "a = length (images s)"
    by (auto simp: allocImage_def)
  show "validStore s'"
    unfolding validStore_iff s'(1)
    using assms(1) s'(2) by (auto simp: validStore_iff intro: validProc_more_images)
  show "a < length (images s')" using s' by simp
  show "procs s' = procs s" by (rule s'(1))
qed

lemma validStore_setProc:
  assumes "validStore s" and "validProc s p"
  shows "validStore (setProc s ip p)"
proof -
  have "validProc (setProc s ip p) q" if "q \<in> set ((procs s)[ip := p])" for q
  proof -
    from that have "q = p \<or> q \<in> set (procs s)"
      using set_update_subset_insert [of "procs s" ip p] by auto
    then have "validProc s q" using assms by (auto simp: validStore_iff)
    then show ?thesis by (rule validProc_more_images) (simp add: setProc_def)
  qed
  then show ?thesis by (simp add: validStore_iff setProc_def)
qed

lemma validStore_replaceImage:
  assumes "validStore s"
  shows "validStore (replaceImage s ip p img)"
proof -
  obtain a s' where a: "allocImage (RGBAImage img) s = (a, s')" by force
  have "validProc s' (p\<lparr>currentImage := Some a\<rparr>)"
    using validStore_allocImage(2) [OF assms a] by (simp add: validProc_def)
  then show ?thesis
    using validStore_allocImage(1) [OF assms a] a
    by (simp add: replaceImage_def validStore_setProc)
qed

lemma validProc_getProc: "validStore s \<Longrightarrow> getProc s ip = Inr p \<Longrightarrow> validProc s p"
  by (auto simp: validStore_def getProc_def list_all_length split: if_splits)

lemma validStore_invoke:
  assumes "validStore s" and "invoke lib c ip s = Inr (ip', s')"
  shows "validStore s'"
proof -
  from invoke_shape [OF assms(2)] obtain p where p: "getProc s ip = Inr p"
    and cases: "s' = s \<or> (\<exists>e. err p = None \<and> s' = setProc s ip (p\<lparr>err := Some e\<rparr>)) \<or>
      (\<exists>img. s' = replaceImage s ip p img)"
    by blast
  have vp: "validProc s p" by (rule validProc_getProc [OF assms(1) p])
  from cases show ?thesis
  proof (elim disjE exE conjE)
    assume "s' = s" with assms(1) show ?thesis by simp
  next
    fix e assume "s' = setProc s ip (p\<lparr>err := Some e\<rparr>)"
    moreover have "validProc s (p\<lparr>err := Some e\<rparr>)"
      using vp by (auto simp: validProc_def split: option.splits)
    ultimately show ?thesis using assms(1) by (simp add: validStore_setProc)
  next
    fix img assume "s' = replaceImage s ip p img"
    then show ?thesis using assms(1) by (simp add: validStore_replaceImage)
  qed
qed

lemma validStore_SetPerformanceOptions:
  assumes "validStore s" and "SetPerformanceOptions ip opts s = Inr (ip', s')"
  shows "validStore s'"
proof -
  from assms(2) obtain p where p: "getProc s ip = Inr p"
    and s': "s' = setProc s ip (p\<lparr>perfOpts := opts\<rparr>)"
    by (auto simp: SetPerformanceOptions_def bindR_eq_Inr)
  have "validProc s (p\<lparr>perfOpts := opts\<rparr>)"
    using validProc_getProc [OF assms(1) p] by (auto simp: validProc_def split: option.splits)
  then show ?thesis using assms(1) s' by (simp add: validStore_setProc)
qed

lemma validStore_Clone:
  assumes "validStore s" and "Clone ip s = Inr (ip', s')"
  shows "validStore s'"
proof -
  from assms(2) obtain p where p: "getProc s ip = Inr p"
    and a: "allocProc \<lparr>currentImage = currentImage p, err = err p, perfOpts = perfOpts p\<rparr> s = (ip', s')"
    by (auto simp: Clone_def bindR_eq_Inr)
  have "validProc s \<lparr>currentImage = currentImage p, err = err p, perfOpts = perfOpts p\<rparr>"
    using validProc_getProc [OF assms(1) p] by (auto simp: validProc_def split: option.splits)
  with assms(1) show ?thesis using a by (rule validStore_allocProc)
qed

lemma validStore_failed:
  assumes "validStore s"
    and "allocProc \<lparr>currentImage = None, err = Some e, perfOpts = opts\<rparr> s = (ip, s')"
  shows "validStore s'"
  using assms(1) _ assms(2) by (rule validStore_allocProc) (simp add: validProc_def)

lemma validStore_ready:
  assumes "validStore s" and "allocImage img s = (a, s1)"
    and "allocProc \<lparr>currentImage = Some a, err = None, perfOpts = opts\<rparr> s1 = (ip, s')"
  shows "validStore s'"
  using validStore_allocImage(1) [OF assms(1,2)] _ assms(3)
  by (rule validStore_allocProc) (simp add: validProc_def validStore_allocImage(2) [OF assms(1,2)])

lemma validStore_New:
  assumes "validStore s" and "New lib img s = (ip, s')"
  shows "validStore s'"
proof (cases img)
  case None
  with assms show ?thesis by (auto simp: New_def intro: validStore_failed)
next
  case (Some i)
  obtain a s1 where "allocImage i s = (a, s1)" by force
  with Some assms show ?thesis by (auto simp: New_def intro: validStore_ready)
qed

lemma validStore_NewWithPerformanceOptions:
  assumes "validStore s" and "NewWithPerformanceOptions img opts s = (ip, s')"
  shows "validStore s'"
proof (cases img)
  case None
  with assms show ?thesis by (auto simp: NewWithPerformanceOptions_def intro: validStore_failed)
next
  case (Some i)
  obtain a s1 where "allocImage i s = (a, s1)" by force
  with Some assms show ?thesis
    by (auto simp: NewWithPerformanceOptions_def intro: validStore_ready)
qed

lemma validStore_FromBytes:
  assumes "validStore s" and "FromBytes lib data s = (ip, s')"
  shows "validStore s'"
proof (cases "length data = 0")
  case True
  with assms show ?thesis by (auto simp: FromBytes_def intro: validStore_failed)
next
  case False
  show ?thesis
  proof (cases "decodeImage lib data")
    case (Inl e)
    with False assms show ?thesis by (auto simp: FromBytes_def intro: validStore_failed)
  next
    case (Inr img)
    obtain a s1 where "allocImage img s = (a, s1)" by force
    with Inr False assms show ?thesis by (auto simp: FromBytes_def intro: validStore_ready)
  qed
qed

lemma reachable_validStore: "reachable lib s \<Longrightarrow> validStore s"
proof (induction rule: reachable.induct)
  case reach_empty
  show ?case by (simp add: validStore_def emptyStore_def)
qed (auto intro: validStore_New validStore_NewWithPerformanceOptions validStore_FromBytes
      validStore_SetPerformanceOptions validStore_Clone validStore_invoke)

text \<open>
  Claim C10. In every store reached with \<^verbatim>\<open>New\<close>, \<^verbatim>\<open>NewWithPerformanceOptions\<close>,
  \<^verbatim>\<open>FromBytes\<close>, \<^verbatim>\<open>Clone\<close>, \<^verbatim>\<open>SetPerformanceOptions\<close> and the chainable methods, a
  processor with no latched error has a current image, so the call of
  \<^verbatim>\<open>ip.currentImage.Bounds()\<close> that follows the error check of a transform finds an image,
  and \<^verbatim>\<open>Image()\<close> never returns a nil image with a nil error.
\<close>

theorem current_image_never_nil:
  assumes "reachable lib s" and "getProc s ip = Inr p"
  shows "(err p = None \<longrightarrow> (\<exists>a img. currentImage p = Some a \<and> getImage s (currentImage p) = Inr img)) \<and>
         ImageMethod ip s \<noteq> Inr (None, None)"
proof -
  have "validProc s p"
    by (rule validProc_getProc [OF reachable_validStore [OF assms(1)] assms(2)])
  then show ?thesis using assms(2)
    by (auto simp: validProc_def getImage_def ImageMethod_def split: option.splits)
qed

lemma readyStore_reachable: "reachable sampleLibrary (readyStore c)"
  unfolding readyStore_def
  by (rule reach_New [OF reach_empty, of _ "Some (RGBAImage (onePixel 0 0 c))"
        "fst (New sampleLibrary (Some (RGBAImage (onePixel 0 0 c))) emptyStore)"]) simp

theorem current_image_never_nil_witness:
  "reachable sampleLibrary (readyStore (1, 2, 3, 4)) \<and>
   getProc (readyStore (1, 2, 3, 4)) 0 =
     Inr \<lparr>currentImage = Some 0, err = None, perfOpts = DefaultPerformanceOptions 4\<rparr> \<and>
   getImage (readyStore (1, 2, 3, 4)) (Some 0) = Inr (RGBAImage (onePixel 0 0 (1, 2, 3, 4))) \<and>
   ImageMethod 0 (readyStore (1, 2, 3, 4)) \<noteq> Inr (None, None)"
  using current_image_never_nil [OF readyStore_reachable readyStore_proc, of "(1, 2, 3, 4)"]
    readyStore_reachable [of "(1, 2, 3, 4)"] readyStore_proc [of "(1, 2, 3, 4)"]
  by (simp add: getImage_def readyStore_images)

subsection \<open>Clones\<close>

lemma observable_cong:
  assumes "getProc s' u = getProc s u"
    and "\<And>p a. getProc s u = Inr p \<Longrightarrow> currentImage p = Some a \<Longrightarrow>
           getImage s' (Some a) = getImage s (Some a)"
  shows "observable s' u = observable s u"
  using assms by (cases "getProc s u") (auto simp: observable_def split: option.splits)

lemma getProc_setProc_other: "u \<noteq> ip \<Longrightarrow> getProc (setProc s ip p) u = getProc s u"
  by (simp add: getProc_def setProc_def)

lemma getProc_replaceImage_other:
  "u \<noteq> ip \<Longrightarrow> getProc (replaceImage s ip p img) u = getProc s u"
  by (simp add: getProc_def setProc_def replaceImage_def allocImage_def)

lemma getImage_replaceImage:
  "a < length (images s) \<Longrightarrow>
   getImage (replaceImage s ip p img) (Some a) = getImage s (Some a)"
  by (simp add: getImage_def setProc_def replaceImage_def allocImage_def nth_append)

lemma getImage_setProc: "getImage (setProc s ip p) r = getImage s r"
  by (cases r) (simp_all add: getImage_def setProc_def)

lemma validProc_ref:
  "validProc s p \<Longrightarrow> currentImage p = Some a \<Longrightarrow> a < length (images s)"
  by (simp add: validProc_def)

lemma invoke_frame:
  assumes "validStore s" and "invoke lib c ip s = Inr (ip', s')" and "u \<noteq> ip"
  shows "observable s' u = observable s u"
proof -
  from invoke_shape [OF assms(2)] obtain p where
    cases: "s' = s \<or> (\<exists>e. s' = setProc s ip (p\<lparr>err := Some e\<rparr>)) \<or>
      (\<exists>img. s' = replaceImage s ip p img)"
    by blast
  have ref: "a < length (images s)" if "getProc s u = Inr q" "currentImage q = Some a" for q a
    using validProc_ref [OF validProc_getProc [OF assms(1) that(1)] that(2)] .
  from cases show ?thesis
  proof (elim disjE exE)
    assume "s' = s" then show ?thesis by simp
  next
    fix e assume "s' = setProc s ip (p\<lparr>err := Some e\<rparr>)"
    then show ?thesis
      using assms(3) by (intro observable_cong) (simp_all add: getProc_setProc_other getImage_setProc)
  next
    fix img assume "s' = replaceImage s ip p img"
    then show ?thesis
      using assms(3) ref
      by (intro observable_cong) (simp_all add: getProc_replaceImage_other getImage_replaceImage)
  qed
qed

lemma perform_frame:
  assumes "validStore s" and "perform lib w ip s = Inr (ip', s')" and "u \<noteq> ip"
  shows "observable s' u = observable s u"
proof (cases w)
  case (Chainable c)
  with assms show ?thesis by (auto intro: invoke_frame)
next
  case (SetOptions opts)
  with assms(2) obtain p where "s' = setProc s ip (p\<lparr>perfOpts := opts\<rparr>)"
    by (auto simp: SetPerformanceOptions_def bindR_eq_Inr)
  then show ?thesis
    using assms(3) by (intro observable_cong) (simp_all add: getProc_setProc_other getImage_setProc)
qed

lemma perform_same_processor:
  assumes "perform lib w ip s = Inr (ip', s')"
  shows "ip' = ip"
proof (cases w)
  case (Chainable c)
  with assms show ?thesis using invoke_shape by fastforce
next
  case (SetOptions opts)
  with assms show ?thesis by (auto simp: SetPerformanceOptions_def bindR_eq_Inr)
qed

lemma validStore_perform:
  assumes "validStore s" and "perform lib w ip s = Inr (ip', s')"
  shows "validStore s'"
  using assms
  by (cases w) (auto intro: validStore_invoke validStore_SetPerformanceOptions)

lemma performAll_frame:
  assumes "validStore s" and "performAll lib ws ip s = Inr (ip', s')" and "u \<noteq> ip"
  shows "observable s' u = observable s u"
  using assms
proof (induction ws arbitrary: s)
  case Nil
  then show ?case by simp
next
  case (Cons w ws)
  from Cons.prems(2) obtain i1 s1 where w: "perform lib w ip s = Inr (i1, s1)"
    and rest: "performAll lib ws i1 s1 = Inr (ip', s')"
    by (auto split: sum.splits)
  have i1: "i1 = ip" by (rule perform_same_processor [OF w])
  have "observable s' u = observable s1 u"
    using Cons.IH [OF validStore_perform [OF Cons.prems(1) w]] rest i1 Cons.prems(3) by simp
  also have "\<dots> = observable s u"
    by (rule perform_frame [OF Cons.prems(1) w Cons.prems(3)])
  finally show ?case .
qed

text \<open>
  Claim C8. In a store where every reference is valid, \<^verbatim>\<open>Clone\<close> returns a new processor
  with the same image reference, the same latched error and the same options as the
  source, and changes nothing else. After it, whatever sequence of write calls (the
  chainable methods and \<^verbatim>\<open>SetPerformanceOptions\<close>) runs on one of the two processors, the
  image, the error and the options that the other one shows stay the same.
\<close>

theorem clone_independent:
  assumes "validStore s" and "getProc s ip = Inr p"
  shows "\<exists>ip' s'. Clone ip s = Inr (ip', s') \<and> ip' \<noteq> ip \<and>
           getProc s' ip' = Inr p \<and> getProc s' ip = Inr p \<and> images s' = images s \<and>
           (\<forall>ws t s''. performAll lib ws ip s' = Inr (t, s'') \<longrightarrow>
              observable s'' ip' = observable s' ip') \<and>
           (\<forall>ws t s''. performAll lib ws ip' s' = Inr (t, s'') \<longrightarrow>
              observable s'' ip = observable s' ip)"
proof -
  define ip' where "ip' = length (procs s)"
  define s' where "s' = s\<lparr>procs := procs s @ [p]\<rparr>"
  have lt: "ip < length (procs s)" and p: "procs s ! ip = p"
    using assms(2) by (auto simp: getProc_def split: if_splits)
  have c: "Clone ip s = Inr (ip', s')"
    using assms(2) by (simp add: Clone_def allocProc_def ip'_def s'_def)
  have v: "validStore s'" by (rule validStore_Clone [OF assms(1) c])
  have ne: "ip' \<noteq> ip" using lt by (simp add: ip'_def)
  have "getProc s' ip' = Inr p" by (simp add: getProc_def s'_def ip'_def)
  moreover have "getProc s' ip = Inr p" using lt p by (simp add: getProc_def s'_def nth_append)
  moreover have "images s' = images s" by (simp add: s'_def)
  moreover have "observable s'' ip' = observable s' ip'"
    if "performAll lib ws ip s' = Inr (t, s'')" for ws t s''
    by (rule performAll_frame [OF v that ne])
  moreover have "observable s'' ip = observable s' ip"
    if "performAll lib ws ip' s' = Inr (t, s'')" for ws t s''
    by (rule performAll_frame [OF v that ne [symmetric]])
  ultimately show ?thesis using c ne by blast
qed


lemma readyStore_procs:
  "procs (readyStore c) =
     [\<lparr>currentImage = Some 0, err = None, perfOpts = DefaultPerformanceOptions 4\<rparr>]"
  by (simp add: readyStore_def New_def allocProc_def allocImage_def emptyStore_def
      sampleLibrary_def)

theorem clone_independent_witness:
  "\<exists>s1 s2. validStore (readyStore (1, 2, 3, 4)) \<and>
     Clone 0 (readyStore (1, 2, 3, 4)) = Inr (1, s1) \<and>
     getProc s1 1 = getProc (readyStore (1, 2, 3, 4)) 0 \<and>
     performAll sampleLibrary
       [Chainable (CallCrop 0 0 0 50), SetOptions zeroPerformanceOptions] 0 s1 = Inr (0, s2) \<and>
     observable s2 1 = observable s1 1 \<and>
     observable s2 0 \<noteq> observable s1 0"
proof -
  let ?s = "readyStore (1, 2, 3, 4)"
  let ?p = "\<lparr>currentImage = Some 0, err = None, perfOpts = DefaultPerformanceOptions 4\<rparr>"
  let ?ws = "[Chainable (CallCrop 0 0 0 50), SetOptions zeroPerformanceOptions]"
  have v: "validStore ?s" by (rule reachable_validStore [OF readyStore_reachable])
  from clone_independent [OF v readyStore_proc, of sampleLibrary]
  obtain ip' s' where c: "Clone 0 ?s = Inr (ip', s')"
    and g1: "getProc s' ip' = Inr ?p" and g0: "getProc s' 0 = Inr ?p"
    and fr: "\<And>ws t s''. performAll sampleLibrary ws 0 s' = Inr (t, s'') \<Longrightarrow>
               observable s'' ip' = observable s' ip'"
    by blast
  have ip': "ip' = 1"
    using c by (simp add: Clone_def readyStore_proc allocProc_def readyStore_procs)
  have len: "0 < length (procs s')"
    using g0 by (simp add: getProc_def split: if_splits)
  obtain s2 where run: "performAll sampleLibrary ?ws 0 s' = Inr (0, s2)"
    and e2: "getProc s2 0 = Inr (?p\<lparr>err := Some (CropDimensions 0 50), perfOpts := zeroPerformanceOptions\<rparr>)"
    using g0 len by (simp add: Crop_def SetPerformanceOptions_def getProc_def setProc_def)
  have "observable s2 0 \<noteq> observable s' 0"
    using e2 g0 by (simp add: observable_def)
  with v c g1 fr [OF run] run ip' show ?thesis
    by (intro exI [of _ s'] exI [of _ s2]) (simp add: readyStore_proc)
qed

subsection \<open>Encoding\<close>

lemma emptyImageStore_proc:
  "getProc emptyImageStore 0 =
     Inr \<lparr>currentImage = Some 0, err = None, perfOpts = DefaultPerformanceOptions 4\<rparr>"
  by (simp add: emptyImageStore_def New_def allocProc_def allocImage_def emptyStore_def
      getProc_def sampleLibrary_def)

lemma emptyImageStore_images:
  "images emptyImageStore = [RGBAImage \<lparr>Pix = [], Stride = 0, Rect = image_Rect 0 0 0 0\<rparr>]"
  by (simp add: emptyImageStore_def New_def allocProc_def allocImage_def emptyStore_def)

text \<open>
  Claim C9 says that \<^verbatim>\<open>ToBytes\<close> on a processor with no latched error fails exactly when
  the format has no encoder. It also fails when the encoder of the format fails:
  \<^verbatim>\<open>New(image.NewRGBA(image.Rect(0, 0, 0, 0))).ToBytes(FormatPNG)\<close> returns the wrapped
  error of \<^verbatim>\<open>png.Encode\<close>, which rejects an image without pixels.
\<close>

theorem toBytes_png_error_counterexample:
  "getProc emptyImageStore 0 =
     Inr \<lparr>currentImage = Some 0, err = None, perfOpts = DefaultPerformanceOptions 4\<rparr> \<and>
   ToBytes sampleLibrary 0 FormatPNG emptyImageStore =
     Inr (Inl (EncodeFailed (LibError ''png: invalid format: invalid image size'')))"
  by (simp add: emptyImageStore_proc ToBytes_def getImage_def emptyImageStore_images
      encodeImage_def FormatPNG_def FormatJPEG_def sampleLibrary_def samplePngEncode_def
      Dx_def Dy_def image_Rect_def Pt_def)

text \<open>
  Claim C9, amended. \<^verbatim>\<open>ToBytes\<close> returns the latched error of a failed processor, whatever
  the encoders are. On a processor with no latched error and a current image it fails,
  with the wrapped error of \<^verbatim>\<open>encodeImage\<close>, for every format tag other than
  \<^verbatim>\<open>FormatJPEG\<close> and \<^verbatim>\<open>FormatPNG\<close>; for these two it returns what the encoder of the
  library returns, the bytes or the encoder's error wrapped in
  \<^verbatim>\<open>failed to encode image to bytes\<close>.
\<close>

theorem toBytes_contract:
  assumes "getProc s ip = Inr p"
  shows "(\<forall>e. err p = Some e \<longrightarrow> ToBytes lib ip format s = Inr (Inl e)) \<and>
         (\<forall>a img. err p = None \<and> currentImage p = Some a \<and> getImage s (Some a) = Inr img \<longrightarrow>
            (format \<noteq> FormatJPEG \<and> format \<noteq> FormatPNG \<longrightarrow>
               (\<exists>e. ToBytes lib ip format s = Inr (Inl (EncodeFailed e)))) \<and>
            (format = FormatJPEG \<longrightarrow>
               ToBytes lib ip format s = Inr (map_sum EncodeFailed id (jpegEncode lib img))) \<and>
            (format = FormatPNG \<longrightarrow>
               ToBytes lib ip format s = Inr (map_sum EncodeFailed id (pngEncode lib img))))"
  using assms
  by (auto simp: ToBytes_def encodeImage_def FormatJPEG_def FormatPNG_def split: sum.splits)

theorem toBytes_contract_witness:
  "ToBytes sampleLibrary 0 FormatPNG failedStore = Inr (Inl NilImage) \<and>
   ToBytes sampleLibrary 0 FormatGIF (readyStore (1, 2, 3, 4)) =
     Inr (Inl (EncodeFailed GIFNotSupported)) \<and>
   ToBytes sampleLibrary 0 FormatUnknown (readyStore (1, 2, 3, 4)) =
     Inr (Inl (EncodeFailed (UnsupportedFormat ''unknown''))) \<and>
   ToBytes sampleLibrary 0 FormatJPEG (readyStore (1, 2, 3, 4)) = Inr (Inr []) \<and>
   ToBytes sampleLibrary 0 FormatPNG (readyStore (1, 2, 3, 4)) = Inr (Inr [])"
proof -
  let ?s = "readyStore (1, 2, 3, 4)"
  let ?img = "RGBAImage (onePixel 0 0 (1, 2, 3, 4))"
  have img: "getImage ?s (Some 0) = Inr ?img"
    by (simp add: getImage_def readyStore_images)
  have d: "Dx (Bounds ?img) = 1" "Dy (Bounds ?img) = 1"
    by (simp_all add: onePixel_def Dx_def Dy_def image_Rect_def Pt_def)
  have j: "jpegEncode sampleLibrary ?img = Inr []" and g: "pngEncode sampleLibrary ?img = Inr []"
    using d by (simp_all add: sampleLibrary_def sampleJpegEncode_def samplePngEncode_def)
  have "ToBytes sampleLibrary 0 FormatPNG failedStore = Inr (Inl NilImage)"
    using toBytes_contract [OF failedStore_proc, of sampleLibrary FormatPNG] by simp
  moreover have "ToBytes sampleLibrary 0 FormatJPEG ?s = Inr (Inr [])"
    using toBytes_contract [OF readyStore_proc, of sampleLibrary FormatJPEG "(1, 2, 3, 4)"] img j
    by simp
  moreover have "ToBytes sampleLibrary 0 FormatPNG ?s = Inr (Inr [])"
    using toBytes_contract [OF readyStore_proc, of sampleLibrary FormatPNG "(1, 2, 3, 4)"] img g
    by (simp add: FormatPNG_def FormatJPEG_def)
  moreover have "ToBytes sampleLibrary 0 FormatGIF ?s = Inr (Inl (EncodeFailed GIFNotSupported))"
    using img by (simp add: ToBytes_def readyStore_proc encodeImage_def FormatGIF_def
        FormatJPEG_def FormatPNG_def)
  moreover have "ToBytes sampleLibrary 0 FormatUnknown ?s =
      Inr (Inl (EncodeFailed (UnsupportedFormat ''unknown'')))"
    using img by (simp add: ToBytes_def readyStore_proc encodeImage_def FormatGIF_def
        FormatJPEG_def FormatPNG_def FormatUnknown_def String_def)
  ultimately show ?thesis by simp
qed

subsection \<open>The rows of the goroutines\<close>

lemma numGoroutines_eq:
  "numGoroutines numCPU opts height =
     min (if MaxGoroutines opts \<le> 0 then numCPU else MaxGoroutines opts) height"
  by (simp add: numGoroutines_def Let_def min_def)

lemma numGoroutines_pos:
  "1 \<le> height \<Longrightarrow> 1 \<le> numCPU \<Longrightarrow> 1 \<le> numGoroutines numCPU opts height"
  by (simp add: numGoroutines_eq)

lemma numGoroutines_le: "numGoroutines numCPU opts height \<le> height"
  by (simp add: numGoroutines_eq)

lemma quo_pos: "0 \<le> a \<Longrightarrow> 0 < b \<Longrightarrow> quo a b = Inr (a div b)"
  by (cases "a = 0") (simp_all add: quo_def)

lemma rows_pos: "1 \<le> n \<Longrightarrow> n \<le> height \<Longrightarrow> 1 \<le> height div (n::int)"
  using int_one_le_iff_zero_less pos_imp_zdiv_pos_iff by blast

lemma strip_inner: "i \<noteq> n - 1 \<Longrightarrow> strip height n r i = (i * r, i * r + r)"
  by (simp add: strip_def Let_def)

lemma strip_last: "strip height n r (n - 1) = ((n - 1) * r, height)"
  by (simp add: strip_def Let_def)

lemma last_start_le:
  assumes "1 \<le> (n::int)"
  shows "(n - 1) * (height div n) + height div n + height mod n = height"
proof -
  have "(n - 1) * (height div n) + height div n = n * (height div n)"
    by (simp add: algebra_simps)
  then show ?thesis by simp
qed

lemma div_eq_iff_int:
  assumes "0 < (r::int)"
  shows "y div r = i \<longleftrightarrow> i * r \<le> y \<and> y < i * r + r"
proof
  assume "y div r = i"
  then have "y = i * r + y mod r" by (metis div_mult_mod_eq)
  moreover have "0 \<le> y mod r" "y mod r < r" using assms by simp_all
  ultimately show "i * r \<le> y \<and> y < i * r + r" by linarith
next
  assume a: "i * r \<le> y \<and> y < i * r + r"
  show "y div r = i"
    by (rule int_div_pos_eq [of y r i "y - i * r"]) (use a in \<open>simp_all add: algebra_simps\<close>)
qed

lemma div_ge_iff_int:
  assumes "0 < (r::int)"
  shows "i \<le> y div r \<longleftrightarrow> i * r \<le> y"
proof
  assume "i \<le> y div r"
  then have "i * r \<le> y div r * r" using assms by (simp add: mult_right_mono)
  also have "\<dots> \<le> y" using div_eq_iff_int [OF assms, of y "y div r"] by simp
  finally show "i * r \<le> y" .
next
  assume "i * r \<le> y"
  then have "i * r div r \<le> y div r" by (rule zdiv_mono1) (rule assms)
  then show "i \<le> y div r" using assms by simp
qed

lemma inStrip_iff:
  assumes n: "1 \<le> (n::int)" "n \<le> height" and y: "0 \<le> y" "y < height"
    and i: "0 \<le> i" "i < n"
  shows "inStrip height n (height div n) i y \<longleftrightarrow> i = min (y div (height div n)) (n - 1)"
proof -
  define r where "r = height div n"
  have r: "0 < r" using rows_pos [OF n] by (simp add: r_def)
  show ?thesis
  proof (cases "i = n - 1")
    case True
    then have "inStrip height n r i y \<longleftrightarrow> (n - 1) * r \<le> y"
      using y by (simp add: inStrip_def strip_last)
    also have "\<dots> \<longleftrightarrow> n - 1 \<le> y div r" by (simp add: div_ge_iff_int [OF r])
    finally show ?thesis using True by (auto simp: r_def min_def)
  next
    case False
    then have "inStrip height n r i y \<longleftrightarrow> y div r = i"
      by (simp add: inStrip_def strip_inner div_eq_iff_int [OF r])
    then show ?thesis using False i by (auto simp: r_def min_def)
  qed
qed

text \<open>
  Claim C4. For an image of at least one row (and at least one CPU), the worker count \<open>n\<close>
  of \<^verbatim>\<open>grayscaleParallel\<close> is the configured maximum, or the CPU count when that is not
  positive, clamped to the number of rows; \<open>n \<ge> 1\<close>, so the division does not panic.
  Every goroutine but the last gets the \<open>height div n\<close> rows that follow those of its
  predecessor, the first starts at row 0, the last ends at row \<open>height\<close> and so gets the
  remainder too, and every row belongs to exactly one goroutine.
\<close>

theorem strips_partition:
  fixes height numCPU :: int and opts :: PerformanceOptions
  assumes "1 \<le> height" and "1 \<le> numCPU"
  defines "n \<equiv> numGoroutines numCPU opts height"
  defines "r \<equiv> height div n"
  shows "n = min (if MaxGoroutines opts \<le> 0 then numCPU else MaxGoroutines opts) height \<and>
         1 \<le> n \<and> quo height n = Inr r \<and>
         (\<forall>i. 0 \<le> i \<and> i < n - 1 \<longrightarrow>
            strip height n r i = (i * r, i * r + r) \<and>
            snd (strip height n r i) = fst (strip height n r (i + 1))) \<and>
         strip height n r 0 = (0, if n = 1 then height else r) \<and>
         strip height n r (n - 1) = ((n - 1) * r, (n - 1) * r + r + height mod n) \<and>
         snd (strip height n r (n - 1)) = height \<and>
         (\<forall>y. 0 \<le> y \<and> y < height \<longrightarrow>
            (\<exists>!i. 0 \<le> i \<and> i < n \<and> inStrip height n r i y))"
proof -
  have n1: "1 \<le> n" unfolding n_def by (rule numGoroutines_pos [OF assms(1,2)])
  have nh: "n \<le> height" unfolding n_def by (rule numGoroutines_le)
  have q: "quo height n = Inr r" using assms(1) n1 by (simp add: quo_pos r_def)
  have inner: "strip height n r i = (i * r, i * r + r) \<and>
      snd (strip height n r i) = fst (strip height n r (i + 1))" if "0 \<le> i" "i < n - 1" for i
    using that by (simp add: strip_def Let_def algebra_simps)
  have first: "strip height n r 0 = (0, if n = 1 then height else r)"
    by (simp add: strip_def Let_def)
  have last: "strip height n r (n - 1) = ((n - 1) * r, (n - 1) * r + r + height mod n)"
    using last_start_le [OF n1, of height] by (simp add: strip_last r_def)
  have last': "snd (strip height n r (n - 1)) = height" by (simp add: strip_last)
  have cover: "\<exists>!i. 0 \<le> i \<and> i < n \<and> inStrip height n r i y" if "0 \<le> y" "y < height" for y
  proof (rule ex1I [of _ "min (y div r) (n - 1)"])
    have r: "0 < r" using rows_pos [OF n1 nh] by (simp add: r_def)
    have "0 \<le> y div r" using that(1) r by (simp add: pos_imp_zdiv_nonneg_iff)
    then have b: "0 \<le> min (y div r) (n - 1)" "min (y div r) (n - 1) < n" using n1 by auto
    then show "0 \<le> min (y div r) (n - 1) \<and> min (y div r) (n - 1) < n \<and>
        inStrip height n r (min (y div r) (n - 1)) y"
      using inStrip_iff [OF n1 nh that b] by (simp add: r_def)
  next
    fix i assume "0 \<le> i \<and> i < n \<and> inStrip height n r i y"
    then show "i = min (y div r) (n - 1)"
      using inStrip_iff [OF n1 nh that, of i] by (simp add: r_def)
  qed
  have eq: "n = min (if MaxGoroutines opts \<le> 0 then numCPU else MaxGoroutines opts) height"
    unfolding n_def by (rule numGoroutines_eq)
  from eq n1 q inner first last last' cover show ?thesis by blast
qed

theorem strips_partition_witness:
  "(1::int) \<le> 7 \<and> (1::int) \<le> 4 \<and>
   numGoroutines 4 \<lparr>MaxGoroutines = 3, EnableParallelProcessing = True, MinSizeForParallel = 0\<rparr> 7 = 3 \<and>
   quo 7 3 = Inr 2 \<and>
   strip 7 3 2 0 = (0, 2) \<and> strip 7 3 2 1 = (2, 4) \<and> strip 7 3 2 2 = (4, 7) \<and>
   (\<exists>!i. 0 \<le> i \<and> i < 3 \<and> inStrip 7 3 2 i 6)"
  using strips_partition
    [of 7 4 "\<lparr>MaxGoroutines = 3, EnableParallelProcessing = True, MinSizeForParallel = 0\<rparr>"]
  by (simp add: numGoroutines_def strip_def)

subsection \<open>Loops over pixels\<close>

lemma forLoop_done: "n \<le> i \<Longrightarrow> forLoop i n body s = Inr s"
  by (subst forLoop.simps) simp

lemma forLoop_step:
  "i < n \<Longrightarrow> forLoop i n body s = bindR (body i s) (forLoop (i + 1) n body)"
  by (subst forLoop.simps) (simp add: bindR_def)

lemma forLoop_rule:
  assumes "P i s"
    and "\<And>j t. i \<le> j \<Longrightarrow> j < n \<Longrightarrow> P j t \<Longrightarrow> \<exists>t'. body j t = Inr t' \<and> P (j + 1) t'"
    and "i \<le> n"
  shows "\<exists>s'. forLoop i n body s = Inr s' \<and> P n s'"
  using assms
proof (induction i n body s rule: forLoop.induct)
  case (1 i n body s)
  show ?case
  proof (cases "i < n")
    case True
    from "1.prems"(2) [OF order_refl True "1.prems"(1)]
    obtain t where t: "body i s = Inr t" "P (i + 1) t" by blast
    have "\<exists>s'. forLoop (i + 1) n body t = Inr s' \<and> P n s'"
    proof (rule "1.IH" [OF True t(1) t(2)])
      fix j u assume "i + 1 \<le> j" "j < n" "P j u"
      then show "\<exists>t'. body j u = Inr t' \<and> P (j + 1) t'"
        using "1.prems"(2) [of j u] by simp
    next
      show "i + 1 \<le> n" using True by simp
    qed
    then show ?thesis using True t(1) by (simp add: forLoop_step)
  next
    case False
    with "1.prems"(3) have "i = n" by simp
    then show ?thesis using "1.prems"(1) by (simp add: forLoop_done)
  qed
qed

lemma forLoop_cong:
  assumes "\<And>j t. i \<le> j \<Longrightarrow> j < n \<Longrightarrow> body j t = body' j t"
  shows "forLoop i n body s = forLoop i n body' s"
  using assms
proof (induction i n body s rule: forLoop.induct)
  case (1 i n body s)
  show ?case
  proof (cases "i < n")
    case True
    have b: "body i s = body' i s" using "1.prems" True by simp
    show ?thesis
    proof (cases "body i s")
      case (Inl e)
      then show ?thesis using True b by (simp add: forLoop_step)
    next
      case (Inr t)
      have "forLoop (i + 1) n body t = forLoop (i + 1) n body' t"
        by (rule "1.IH" [OF True Inr]) (use "1.prems" in simp)
      moreover have "body' i s = Inr t" using b Inr by simp
      ultimately show ?thesis using True Inr by (simp add: forLoop_step)
    qed
  next
    case False
    then show ?thesis by (simp add: forLoop_done)
  qed
qed

lemma forLoop_split:
  assumes "a \<le> b" and "b \<le> c"
  shows "forLoop a c body s = bindR (forLoop a b body s) (forLoop b c body)"
  using assms
proof (induction a b body s rule: forLoop.induct)
  case (1 i n body s)
  show ?case
  proof (cases "i < n")
    case True
    then have ic: "i < c" using "1.prems" by simp
    show ?thesis
    proof (cases "body i s")
      case (Inl e)
      then show ?thesis using True ic by (simp add: forLoop_step)
    next
      case (Inr t)
      have "forLoop (i + 1) c body t = bindR (forLoop (i + 1) n body t) (forLoop n c body)"
        by (rule "1.IH" [OF True Inr]) (use True "1.prems" in simp_all)
      then show ?thesis using True ic Inr by (simp add: forLoop_step)
    qed
  next
    case False
    with "1.prems" have "i = n" by simp
    then show ?thesis by (simp add: forLoop_done)
  qed
qed

lemma readPixel_eq:
  assumes "0 \<le> i" and "i + 4 \<le> int (length p)"
  shows "readPixel p i = Inr (p ! nat i, p ! nat (i + 1), p ! nat (i + 2), p ! nat (i + 3))"
  using assms by (simp add: readPixel_def readPix_def)

lemma writePixel_eq:
  assumes "0 \<le> i" and "i + 4 \<le> int (length p)"
  shows "writePixel p i (r, g, b, a) =
           Inr (p[nat i := r, nat (i + 1) := g, nat (i + 2) := b, nat (i + 3) := a])"
  using assms by (simp add: writePixel_def writePix_def)

lemma writePixel_ok:
  assumes "0 \<le> i" and "i + 4 \<le> int (length p)"
  shows "\<exists>p'. writePixel p i c = Inr p' \<and> length p' = length p \<and> readPixel p' i = Inr c \<and>
           (\<forall>j. j + 4 \<le> i \<or> i + 4 \<le> j \<longrightarrow> readPixel p' j = readPixel p j)"
proof -
  obtain r g b a where c: "c = (r, g, b, a)" by (cases c) auto
  let ?p = "p[nat i := r, nat (i + 1) := g, nat (i + 2) := b, nat (i + 3) := a]"
  have w: "writePixel p i c = Inr ?p" unfolding c by (rule writePixel_eq [OF assms])
  have l: "length ?p = length p" by simp
  have n: "nat (i + 1) = nat i + 1" "nat (i + 2) = nat i + 2" "nat (i + 3) = nat i + 3"
    using assms(1) by (simp_all add: nat_add_distrib)
  have lt: "nat i + 3 < length p" using assms by linarith
  have rd: "readPixel ?p i = Inr c"
    using assms lt unfolding c by (subst readPixel_eq) (simp_all add: n)
  have other: "readPixel ?p j = readPixel p j" if "j + 4 \<le> i \<or> i + 4 \<le> j" for j
  proof (cases "0 \<le> j \<and> j + 4 \<le> int (length p)")
    case True
    then have nj: "nat (j + 1) = nat j + 1" "nat (j + 2) = nat j + 2" "nat (j + 3) = nat j + 3"
      by (simp_all add: nat_add_distrib)
    have d: "nat j + 3 < nat i \<or> nat i + 3 < nat j" using that True assms(1) by linarith
    have "readPixel ?p j = Inr (?p ! nat j, ?p ! nat (j + 1), ?p ! nat (j + 2), ?p ! nat (j + 3))"
      using True by (intro readPixel_eq) simp_all
    also have "\<dots> = Inr (p ! nat j, p ! nat (j + 1), p ! nat (j + 2), p ! nat (j + 3))"
      using d by (auto simp: n nj)
    also have "\<dots> = readPixel p j" using True by (simp add: readPixel_eq)
    finally show ?thesis .
  next
    case False
    then show ?thesis
      by (auto simp: readPixel_def readPix_def bindR_def split: sum.splits)
  qed
  from w l rd other show ?thesis by blast
qed

lemma rowLoop:
  fixes off :: "int \<Rightarrow> int"
  assumes range: "\<And>x. x0 \<le> x \<Longrightarrow> x < x1 \<Longrightarrow> 0 \<le> off x \<and> off x + 4 \<le> int (length pix)"
    and sep: "\<And>x x'. x0 \<le> x \<Longrightarrow> x < x' \<Longrightarrow> x' < x1 \<Longrightarrow> off x + 4 \<le> off x'"
    and body: "\<And>x p. x0 \<le> x \<Longrightarrow> x < x1 \<Longrightarrow> length p = length pix \<Longrightarrow>
                 body x p = writePixel p (off x) (c x)"
    and le: "x0 \<le> x1"
  shows "\<exists>pix'. forLoop x0 x1 body pix = Inr pix' \<and> length pix' = length pix \<and>
           (\<forall>x. x0 \<le> x \<and> x < x1 \<longrightarrow> readPixel pix' (off x) = Inr (c x)) \<and>
           (\<forall>j. (\<forall>x. x0 \<le> x \<and> x < x1 \<longrightarrow> j + 4 \<le> off x \<or> off x + 4 \<le> j) \<longrightarrow>
              readPixel pix' j = readPixel pix j)"
proof -
  define P where "P k p \<longleftrightarrow> length p = length pix \<and>
      (\<forall>x. x0 \<le> x \<and> x < k \<longrightarrow> readPixel p (off x) = Inr (c x)) \<and>
      (\<forall>j. (\<forall>x. x0 \<le> x \<and> x < x1 \<longrightarrow> j + 4 \<le> off x \<or> off x + 4 \<le> j) \<longrightarrow>
         readPixel p j = readPixel pix j)" for k p
  have "\<exists>pix'. forLoop x0 x1 body pix = Inr pix' \<and> P x1 pix'"
  proof (rule forLoop_rule [where P = P])
    show "P x0 pix" by (auto simp: P_def)
    show "x0 \<le> x1" by (rule le)
  next
    fix k p assume k: "x0 \<le> k" "k < x1" and Pk: "P k p"
    then have len: "length p = length pix" by (simp add: P_def)
    from range [OF k] len have r: "0 \<le> off k" "off k + 4 \<le> int (length p)" by simp_all
    from writePixel_ok [OF r, of "c k"] obtain p' where p':
      "writePixel p (off k) (c k) = Inr p'" "length p' = length p"
      "readPixel p' (off k) = Inr (c k)"
      "\<And>j. j + 4 \<le> off k \<or> off k + 4 \<le> j \<Longrightarrow> readPixel p' j = readPixel p j"
      by blast
    have "P (k + 1) p'"
      unfolding P_def
    proof (intro conjI allI impI)
      show "length p' = length pix" using p'(2) len by simp
    next
      fix x assume x: "x0 \<le> x \<and> x < k + 1"
      show "readPixel p' (off x) = Inr (c x)"
      proof (cases "x = k")
        case True
        then show ?thesis using p'(3) by simp
      next
        case False
        with x have xk: "x < k" by simp
        have "off x + 4 \<le> off k" using sep [of x k] x xk k by simp
        then have "readPixel p' (off x) = readPixel p (off x)" by (intro p'(4)) simp
        then show ?thesis using Pk x xk by (simp add: P_def)
      qed
    next
      fix j assume j: "\<forall>x. x0 \<le> x \<and> x < x1 \<longrightarrow> j + 4 \<le> off x \<or> off x + 4 \<le> j"
      then have "readPixel p' j = readPixel p j" using k by (intro p'(4)) blast
      then show "readPixel p' j = readPixel pix j" using Pk j by (simp add: P_def)
    qed
    then show "\<exists>t'. body k p = Inr t' \<and> P (k + 1) t'"
      using body [OF k len] p'(1) by simp
  qed
  then show ?thesis by (simp add: P_def)
qed

lemma pixelLoop:
  fixes off :: "int \<Rightarrow> int \<Rightarrow> int"
  assumes range: "\<And>x y. x0 \<le> x \<Longrightarrow> x < x1 \<Longrightarrow> y0 \<le> y \<Longrightarrow> y < y1 \<Longrightarrow>
                    0 \<le> off x y \<and> off x y + 4 \<le> int (length pix)"
    and colsep: "\<And>x x' y. x0 \<le> x \<Longrightarrow> x < x' \<Longrightarrow> x' < x1 \<Longrightarrow> y0 \<le> y \<Longrightarrow> y < y1 \<Longrightarrow>
                    off x y + 4 \<le> off x' y"
    and rowsep: "\<And>x x' y y'. x0 \<le> x \<Longrightarrow> x < x1 \<Longrightarrow> x0 \<le> x' \<Longrightarrow> x' < x1 \<Longrightarrow>
                    y0 \<le> y \<Longrightarrow> y < y' \<Longrightarrow> y' < y1 \<Longrightarrow> off x y + 4 \<le> off x' y'"
    and body: "\<And>x y p. x0 \<le> x \<Longrightarrow> x < x1 \<Longrightarrow> y0 \<le> y \<Longrightarrow> y < y1 \<Longrightarrow>
                 length p = length pix \<Longrightarrow> body y x p = writePixel p (off x y) (c x y)"
    and le: "x0 \<le> x1" "y0 \<le> y1"
  shows "\<exists>pix'. forLoop y0 y1 (\<lambda>y. forLoop x0 x1 (body y)) pix = Inr pix' \<and>
           length pix' = length pix \<and>
           (\<forall>x y. x0 \<le> x \<and> x < x1 \<and> y0 \<le> y \<and> y < y1 \<longrightarrow>
              readPixel pix' (off x y) = Inr (c x y))"
proof -
  define Q where "Q k p \<longleftrightarrow> length p = length pix \<and>
      (\<forall>x y. x0 \<le> x \<and> x < x1 \<and> y0 \<le> y \<and> y < k \<longrightarrow> readPixel p (off x y) = Inr (c x y))"
    for k p
  have "\<exists>pix'. forLoop y0 y1 (\<lambda>y. forLoop x0 x1 (body y)) pix = Inr pix' \<and> Q y1 pix'"
  proof (rule forLoop_rule [where P = Q])
    show "Q y0 pix" by (auto simp: Q_def)
    show "y0 \<le> y1" by (rule le)
  next
    fix k p assume k: "y0 \<le> k" "k < y1" and Qk: "Q k p"
    then have len: "length p = length pix" by (simp add: Q_def)
    have "\<exists>p'. forLoop x0 x1 (body k) p = Inr p' \<and> length p' = length p \<and>
           (\<forall>x. x0 \<le> x \<and> x < x1 \<longrightarrow> readPixel p' (off x k) = Inr (c x k)) \<and>
           (\<forall>j. (\<forall>x. x0 \<le> x \<and> x < x1 \<longrightarrow> j + 4 \<le> off x k \<or> off x k + 4 \<le> j) \<longrightarrow>
              readPixel p' j = readPixel p j)"
    proof (rule rowLoop)
      show "0 \<le> off x k \<and> off x k + 4 \<le> int (length p)" if "x0 \<le> x" "x < x1" for x
        using range [OF that k] len by simp
      show "off x k + 4 \<le> off x' k" if "x0 \<le> x" "x < x'" "x' < x1" for x x'
        using colsep [OF that k] .
      show "body k x q = writePixel q (off x k) (c x k)"
        if "x0 \<le> x" "x < x1" "length q = length p" for x q
        using body [OF that(1,2) k] that(3) len by simp
      show "x0 \<le> x1" by (rule le)
    qed
    then obtain p' where p': "forLoop x0 x1 (body k) p = Inr p'" "length p' = length p"
      "\<And>x. x0 \<le> x \<Longrightarrow> x < x1 \<Longrightarrow> readPixel p' (off x k) = Inr (c x k)"
      "\<And>j. (\<forall>x. x0 \<le> x \<and> x < x1 \<longrightarrow> j + 4 \<le> off x k \<or> off x k + 4 \<le> j) \<Longrightarrow>
         readPixel p' j = readPixel p j"
      by blast
    have "Q (k + 1) p'"
      unfolding Q_def
    proof (intro conjI allI impI)
      show "length p' = length pix" using p'(2) len by simp
    next
      fix x y assume xy: "x0 \<le> x \<and> x < x1 \<and> y0 \<le> y \<and> y < k + 1"
      show "readPixel p' (off x y) = Inr (c x y)"
      proof (cases "y = k")
        case True
        then show ?thesis using p'(3) xy by simp
      next
        case False
        with xy have yk: "y < k" by simp
        have "readPixel p' (off x y) = readPixel p (off x y)"
        proof (rule p'(4), intro allI impI)
          fix x' assume "x0 \<le> x' \<and> x' < x1"
          then have "off x y + 4 \<le> off x' k"
            using rowsep [of x x' y k] xy yk k by simp
          then show "off x y + 4 \<le> off x' k \<or> off x' k + 4 \<le> off x y" by simp
        qed
        then show ?thesis using Qk xy yk by (simp add: Q_def)
      qed
    qed
    then show "\<exists>t'. forLoop x0 x1 (body k) p = Inr t' \<and> Q (k + 1) t'"
      using p'(1) by simp
  qed
  then show ?thesis by (simp add: Q_def)
qed

lemma affine_rowsep:
  fixes S :: int
  assumes "4 * (x1 - x0) \<le> S" and "x0 \<le> x" "x < x1" "x0 \<le> x'" "x' < x1" and "y < y'"
  shows "A + y * S + 4 * x + 4 \<le> A + y' * S + 4 * x'"
proof -
  have S: "0 \<le> S" using assms(1,2,3) by simp
  have "1 * S \<le> (y' - y) * S" using assms(6) S by (intro mult_right_mono) simp_all
  then have "y * S + S \<le> y' * S" by (simp add: algebra_simps)
  moreover define u v where "u = y * S" and "v = y' * S"
  ultimately have "u + S \<le> v" by simp
  then have "A + u + 4 * x + 4 \<le> A + v + 4 * x'" using assms(1-5) by presburger
  then show ?thesis by (simp add: u_def v_def)
qed

lemma affine_range:
  fixes S :: int
  assumes "4 * w \<le> S" and "(h - 1) * S + 4 * w \<le> L" and "0 \<le> x" "x < w" "0 \<le> y" "y < h"
  shows "0 \<le> y * S + 4 * x \<and> y * S + 4 * x + 4 \<le> L"
proof -
  have S: "0 \<le> S" using assms(1,3,4) by simp
  have "y * S \<le> (h - 1) * S" using assms(6) S by (intro mult_right_mono) simp_all
  moreover have "0 \<le> y * S" using assms(5) S by simp
  moreover define u v where "u = y * S" and "v = (h - 1) * S"
  ultimately have "u \<le> v" "0 \<le> u" by simp_all
  then have "0 \<le> u + 4 * x \<and> u + 4 * x + 4 \<le> L"
    using assms(1-4) unfolding v_def [symmetric] by presburger
  then show ?thesis by (simp add: u_def)
qed

lemma NewRGBA_ok:
  assumes "0 \<le> Dx r" and "0 \<le> Dy r"
  shows "NewRGBA r = Inr \<lparr>Pix = replicate (nat (4 * Dx r * Dy r)) 0, Stride = 4 * Dx r, Rect = r\<rparr>"
  using assms by (simp add: NewRGBA_def)

lemma wfRGBA_NewRGBA:
  assumes "NewRGBA r = Inr d"
  shows "wfRGBA d" and "Rect d = r" and "Stride d = 4 * Dx r"
    and "int (length (Pix d)) = 4 * Dx r * Dy r"
proof -
  from assms have nn: "0 \<le> Dx r" "0 \<le> Dy r"
    and d: "d = \<lparr>Pix = replicate (nat (4 * Dx r * Dy r)) 0, Stride = 4 * Dx r, Rect = r\<rparr>"
    by (auto simp: NewRGBA_def split: if_splits)
  show "Rect d = r" "Stride d = 4 * Dx r" by (simp_all add: d)
  show len: "int (length (Pix d)) = 4 * Dx r * Dy r" using nn by (simp add: d)
  show "wfRGBA d" using nn len by (simp add: wfRGBA_def d algebra_simps)
qed

lemma PixOffset_range:
  assumes "wfRGBA m" and "PointIn (Pt x y) (Rect m)"
  shows "0 \<le> PixOffset m x y \<and> PixOffset m x y + 4 \<le> int (length (Pix m))"
proof -
  have "0 \<le> (y - Y (MinP (Rect m))) * Stride m + 4 * (x - X (MinP (Rect m))) \<and>
        (y - Y (MinP (Rect m))) * Stride m + 4 * (x - X (MinP (Rect m))) + 4 \<le> int (length (Pix m))"
    using assms
    by (intro affine_range [where w = "Dx (Rect m)" and h = "Dy (Rect m)"])
       (simp_all add: wfRGBA_def PointIn_def Pt_def Dx_def Dy_def)
  then show ?thesis by (simp add: PixOffset_def algebra_simps)
qed

lemma srcColour8_ok:
  assumes "wfImage src" and "PointIn (Pt sx sy) (Bounds src)"
  shows "\<exists>c. srcColour8 src sx sy = Inr c"
proof (cases src)
  case (RGBAImage m)
  with assms PixOffset_range [of m sx sy]
  have "srcColour8 src sx sy =
      Inr (Pix m ! nat (PixOffset m sx sy), Pix m ! nat (PixOffset m sx sy + 1),
           Pix m ! nat (PixOffset m sx sy + 2), Pix m ! nat (PixOffset m sx sy + 3))"
    by (simp add: srcColour8_def readPixel_eq)
  then show ?thesis by (rule exI)
next
  case (OtherImage r f)
  then have "srcColour8 src sx sy = Inr (colour8_of (f sx sy))" by (simp add: srcColour8_def)
  then show ?thesis by (rule exI)
qed

lemma Intersect_In:
  assumes "\<not> Empty r" and "In r s"
  shows "Intersect r s = r"
  using assms
  by (auto simp: Intersect_def In_def Empty_def Pt_def Let_def intro!: Rectangle.equality Point.equality)

lemma In_refl: "In r r"
  by (simp add: In_def)

lemma PixOffset_affine:
  "PixOffset m x y =
     (- (Y (MinP (Rect m)) * Stride m) - 4 * X (MinP (Rect m))) + y * Stride m + 4 * x"
  by (simp add: PixOffset_def algebra_simps)

lemma rgbaLoop:
  assumes wf: "wfRGBA dst"
    and body: "\<And>x y p. PointIn (Pt x y) (Rect dst) \<Longrightarrow> length p = length (Pix dst) \<Longrightarrow>
                 body y x p = writePixel p (PixOffset dst x y) (c x y)"
  shows "\<exists>pix'. forLoop (Y (MinP (Rect dst))) (Y (MaxP (Rect dst)))
                   (\<lambda>y. forLoop (X (MinP (Rect dst))) (X (MaxP (Rect dst))) (body y)) (Pix dst) = Inr pix' \<and>
           length pix' = length (Pix dst) \<and>
           (\<forall>x y. PointIn (Pt x y) (Rect dst) \<longrightarrow>
              readPixel pix' (PixOffset dst x y) = Inr (c x y))"
proof -
  let ?x0 = "X (MinP (Rect dst))" and ?x1 = "X (MaxP (Rect dst))"
  let ?y0 = "Y (MinP (Rect dst))" and ?y1 = "Y (MaxP (Rect dst))"
  have le: "?x0 \<le> ?x1" "?y0 \<le> ?y1" and st: "4 * (?x1 - ?x0) \<le> Stride dst"
    using wf by (simp_all add: wfRGBA_def Dx_def Dy_def)
  have "\<exists>pix'. forLoop ?y0 ?y1 (\<lambda>y. forLoop ?x0 ?x1 (body y)) (Pix dst) = Inr pix' \<and>
           length pix' = length (Pix dst) \<and>
           (\<forall>x y. ?x0 \<le> x \<and> x < ?x1 \<and> ?y0 \<le> y \<and> y < ?y1 \<longrightarrow>
              readPixel pix' (PixOffset dst x y) = Inr (c x y))"
  proof (rule pixelLoop [where off = "PixOffset dst"])
    show "0 \<le> PixOffset dst x y \<and> PixOffset dst x y + 4 \<le> int (length (Pix dst))"
      if "?x0 \<le> x" "x < ?x1" "?y0 \<le> y" "y < ?y1" for x y
      using that by (intro PixOffset_range [OF wf]) (simp add: PointIn_def Pt_def)
    show "PixOffset dst x y + 4 \<le> PixOffset dst x' y" if "x < x'" for x x' y
      using that by (simp add: PixOffset_def)
    show "PixOffset dst x y + 4 \<le> PixOffset dst x' y'"
      if "?x0 \<le> x" "x < ?x1" "?x0 \<le> x'" "x' < ?x1" "y < y'" for x x' y y'
      unfolding PixOffset_affine using st that by (rule affine_rowsep)
    show "body y x p = writePixel p (PixOffset dst x y) (c x y)"
      if "?x0 \<le> x" "x < ?x1" "?y0 \<le> y" "y < ?y1" "length p = length (Pix dst)" for x y p
      using that by (intro body) (simp_all add: PointIn_def Pt_def)
  qed (rule le)+
  then show ?thesis by (simp add: PointIn_def Pt_def)
qed

lemma Intersect_Empty: "Empty r \<Longrightarrow> Intersect r r = ZR"
  by (simp add: Intersect_def Let_def Empty_def Pt_def)

lemma X_Pt [simp]: "X (Pt a b) = a"
  by (simp add: Pt_def)

lemma Y_Pt [simp]: "Y (Pt a b) = b"
  by (simp add: Pt_def)

lemma Empty_ZR: "Empty ZR"
  by (simp add: Empty_def ZR_def Pt_def)

lemma Intersect_ZR: "Intersect ZR s = ZR"
  by (auto simp: Intersect_def Let_def Empty_def ZR_def Pt_def)

lemma PointIn_not_Empty: "PointIn p r \<Longrightarrow> \<not> Empty r"
  by (auto simp: PointIn_def Empty_def)

lemma PointIn_In: "PointIn p r \<Longrightarrow> In r s \<Longrightarrow> PointIn p s"
  by (auto simp: PointIn_def In_def Empty_def split: if_splits)

lemma drawSrc_spec:
  assumes dst: "wfRGBA dst" and src: "wfImage src"
    and inside: "In (Rect dst)
                   (AddPt (Bounds src) (Pt (X (MinP (Rect dst)) - X sp) (Y (MinP (Rect dst)) - Y sp)))"
  shows "\<exists>d'. drawSrc dst (Rect dst) src sp = Inr d' \<and> Rect d' = Rect dst \<and>
           Stride d' = Stride dst \<and> length (Pix d') = length (Pix dst) \<and>
           (\<forall>x y. PointIn (Pt x y) (Rect dst) \<longrightarrow>
              (\<exists>c. srcColour8 src (X sp + x - X (MinP (Rect dst)))
                                   (Y sp + y - Y (MinP (Rect dst))) = Inr c \<and>
                   readPixel (Pix d') (PixOffset d' x y) = Inr c))"
proof (cases "Empty (Rect dst)")
  case True
  then have "drawSrc dst (Rect dst) src sp = Inr dst"
    by (simp add: drawSrc_def Let_def Intersect_Empty Intersect_ZR Empty_ZR)
  moreover have "\<not> PointIn (Pt x y) (Rect dst)" for x y
    using True PointIn_not_Empty by blast
  ultimately show ?thesis by simp
next
  case False
  let ?r = "Rect dst"
  let ?sx = "\<lambda>x. X sp + x - X (MinP ?r)" and ?sy = "\<lambda>y. Y sp + y - Y (MinP ?r)"
  define c where "c x y = projr (srcColour8 src (?sx x) (?sy y))" for x y
  have r1: "Intersect ?r ?r = ?r" by (rule Intersect_In [OF False In_refl])
  have r2: "Intersect ?r (AddPt (Bounds src) (Pt (X (MinP ?r) - X sp) (Y (MinP ?r) - Y sp))) = ?r"
    by (rule Intersect_In [OF False inside])
  have sc: "srcColour8 src (?sx x) (?sy y) = Inr (c x y)" if "PointIn (Pt x y) ?r" for x y
  proof -
    have "PointIn (Pt x y) (AddPt (Bounds src) (Pt (X (MinP ?r) - X sp) (Y (MinP ?r) - Y sp)))"
      by (rule PointIn_In [OF that inside])
    then have "PointIn (Pt (?sx x) (?sy y)) (Bounds src)"
      by (simp add: PointIn_def AddPt_def Pt_def)
    from srcColour8_ok [OF src this] show ?thesis by (auto simp: c_def)
  qed
  have "\<exists>pix'. forLoop (Y (MinP ?r)) (Y (MaxP ?r))
          (\<lambda>y. forLoop (X (MinP ?r)) (X (MaxP ?r))
             (\<lambda>x pix. bindR (srcColour8 src (?sx x) (?sy y))
                (\<lambda>c. writePixel pix (PixOffset dst x y) c))) (Pix dst) = Inr pix' \<and>
        length pix' = length (Pix dst) \<and>
        (\<forall>x y. PointIn (Pt x y) ?r \<longrightarrow> readPixel pix' (PixOffset dst x y) = Inr (c x y))"
    by (rule rgbaLoop [OF dst]) (simp add: sc)
  then obtain pix' where pix': "forLoop (Y (MinP ?r)) (Y (MaxP ?r))
          (\<lambda>y. forLoop (X (MinP ?r)) (X (MaxP ?r))
             (\<lambda>x pix. bindR (srcColour8 src (?sx x) (?sy y))
                (\<lambda>c. writePixel pix (PixOffset dst x y) c))) (Pix dst) = Inr pix'"
    "length pix' = length (Pix dst)"
    "\<And>x y. PointIn (Pt x y) ?r \<Longrightarrow> readPixel pix' (PixOffset dst x y) = Inr (c x y)"
    by blast
  have "drawSrc dst ?r src sp = Inr (dst\<lparr>Pix := pix'\<rparr>)"
    using False pix'(1) by (simp add: drawSrc_def Let_def r1 r2)
  moreover have "PixOffset (dst\<lparr>Pix := pix'\<rparr>) x y = PixOffset dst x y" for x y
    by (simp add: PixOffset_def)
  ultimately show ?thesis using pix'(2,3) sc by simp
qed

lemma AddPt_zero [simp]: "AddPt r (Pt 0 0) = r"
  by (simp add: AddPt_def Pt_def)

lemma toRGBA_spec:
  assumes "wfImage img"
  shows "\<exists>m. toRGBA img = Inr m \<and> wfRGBA m \<and> Rect m = Bounds img \<and>
           (\<forall>x y. PointIn (Pt x y) (Bounds img) \<longrightarrow>
              (\<exists>c. srcColour8 img x y = Inr c \<and> readPixel (Pix m) (PixOffset m x y) = Inr c))"
proof (cases img)
  case (RGBAImage m)
  have "\<exists>c. srcColour8 img x y = Inr c \<and> readPixel (Pix m) (PixOffset m x y) = Inr c"
    if "PointIn (Pt x y) (Bounds img)" for x y
    using srcColour8_ok [OF assms that] RGBAImage by (simp add: srcColour8_def)
  then show ?thesis using RGBAImage assms by (simp add: toRGBA_def)
next
  case (OtherImage r f)
  with assms have nn: "0 \<le> Dx r" "0 \<le> Dy r" by simp_all
  define d where "d = \<lparr>Pix = replicate (nat (4 * Dx r * Dy r)) 0, Stride = 4 * Dx r, Rect = r\<rparr>"
  have d: "NewRGBA r = Inr d" unfolding d_def by (rule NewRGBA_ok [OF nn])
  note wd = wfRGBA_NewRGBA [OF d]
  have "\<exists>d'. drawSrc d (Rect d) img (MinP r) = Inr d' \<and> Rect d' = Rect d \<and>
           Stride d' = Stride d \<and> length (Pix d') = length (Pix d) \<and>
           (\<forall>x y. PointIn (Pt x y) (Rect d) \<longrightarrow>
              (\<exists>c. srcColour8 img (X (MinP r) + x - X (MinP (Rect d)))
                                   (Y (MinP r) + y - Y (MinP (Rect d))) = Inr c \<and>
                   readPixel (Pix d') (PixOffset d' x y) = Inr c))"
    by (rule drawSrc_spec [OF wd(1) assms]) (simp add: wd(2) OtherImage In_refl)
  then obtain d' where d': "drawSrc d r img (MinP r) = Inr d'" "Rect d' = r"
    "Stride d' = Stride d" "length (Pix d') = length (Pix d)"
    "\<And>x y. PointIn (Pt x y) r \<Longrightarrow>
       \<exists>c. srcColour8 img x y = Inr c \<and> readPixel (Pix d') (PixOffset d' x y) = Inr c"
    by (auto simp: wd(2))
  have "wfRGBA d'" using wd(1) d'(2,3,4) by (simp add: wfRGBA_def wd(2))
  moreover have "toRGBA img = Inr d'" using d d'(1) OtherImage by (simp add: toRGBA_def)
  ultimately show ?thesis using d'(2,5) OtherImage by simp
qed

lemma grayscalePixel_eq:
  assumes "readPixel spix i = Inr c"
  shows "grayscalePixel spix i j dpix = writePixel dpix j (grayColour c)"
  using assms by (cases c) (simp add: grayscalePixel_def grayColour_def)

lemma grayscaleLoop:
  assumes m: "wfRGBA m" and d: "wfRGBA d" and rect: "Rect d = Rect m" and st: "Stride d = 4 * Dx (Rect m)"
    and len: "int (length (Pix d)) = 4 * Dx (Rect m) * Dy (Rect m)"
  shows "\<exists>pix'. forLoop 0 (Dy (Rect m)) (\<lambda>y. forLoop 0 (Dx (Rect m)) (\<lambda>x.
            grayscalePixel (Pix m) (y * Stride m + x * 4) (y * Stride d + x * 4))) (Pix d) = Inr pix' \<and>
          length pix' = length (Pix d) \<and>
          (\<forall>x y. PointIn (Pt x y) (Rect m) \<longrightarrow>
             (\<exists>c. readPixel (Pix m) (PixOffset m x y) = Inr c \<and>
                  readPixel pix' (PixOffset d x y) = Inr (grayColour c)))"
proof -
  let ?w = "Dx (Rect m)" and ?h = "Dy (Rect m)"
  let ?x0 = "X (MinP (Rect m))" and ?y0 = "Y (MinP (Rect m))"
  define c where "c x y = projr (readPixel (Pix m) (y * Stride m + x * 4))" for x y
  have nn: "0 \<le> ?w" "0 \<le> ?h" using m by (simp_all add: wfRGBA_def)
  have pin: "PointIn (Pt (?x0 + x) (?y0 + y)) (Rect m)" if "0 \<le> x" "x < ?w" "0 \<le> y" "y < ?h" for x y
    using that by (simp add: PointIn_def Dx_def Dy_def)
  have offm: "PixOffset m (?x0 + x) (?y0 + y) = y * Stride m + x * 4" for x y
    by (simp add: PixOffset_def)
  have offd: "PixOffset d (?x0 + x) (?y0 + y) = y * Stride d + x * 4" for x y
    by (simp add: PixOffset_def rect)
  have rd: "readPixel (Pix m) (y * Stride m + x * 4) = Inr (c x y)"
    if "0 \<le> x" "x < ?w" "0 \<le> y" "y < ?h" for x y
    using PixOffset_range [OF m pin [OF that]] by (simp add: offm c_def readPixel_eq)
  have "\<exists>pix'. forLoop 0 ?h (\<lambda>y. forLoop 0 ?w (\<lambda>x.
            grayscalePixel (Pix m) (y * Stride m + x * 4) (y * Stride d + x * 4))) (Pix d) = Inr pix' \<and>
          length pix' = length (Pix d) \<and>
          (\<forall>x y. 0 \<le> x \<and> x < ?w \<and> 0 \<le> y \<and> y < ?h \<longrightarrow>
             readPixel pix' (y * Stride d + x * 4) = Inr (grayColour (c x y)))"
  proof (rule pixelLoop [where off = "\<lambda>x y. y * Stride d + x * 4"])
    show "0 \<le> y * Stride d + x * 4 \<and> y * Stride d + x * 4 + 4 \<le> int (length (Pix d))"
      if "0 \<le> x" "x < ?w" "0 \<le> y" "y < ?h" for x y
      using PixOffset_range [OF d, of "?x0 + x" "?y0 + y"] pin [OF that]
      by (simp add: offd rect)
    show "y * Stride d + x * 4 + 4 \<le> y * Stride d + x' * 4" if "x < x'" for x x' y
      using that by simp
    show "y * Stride d + x * 4 + 4 \<le> y' * Stride d + x' * 4"
      if "0 \<le> x" "x < ?w" "0 \<le> x'" "x' < ?w" "y < y'" for x x' y y'
    proof -
      have "0 + y * Stride d + 4 * x + 4 \<le> 0 + y' * Stride d + 4 * x'"
        by (rule affine_rowsep [where ?x0.0 = 0 and ?x1.0 = ?w]) (use that st in simp_all)
      then show ?thesis by simp
    qed
    show "grayscalePixel (Pix m) (y * Stride m + x * 4) (y * Stride d + x * 4) p =
          writePixel p (y * Stride d + x * 4) (grayColour (c x y))"
      if "0 \<le> x" "x < ?w" "0 \<le> y" "y < ?h" for x y p
      by (rule grayscalePixel_eq [OF rd [OF that]])
  qed (rule nn)+
  then obtain pix' where pix': "forLoop 0 ?h (\<lambda>y. forLoop 0 ?w (\<lambda>x.
            grayscalePixel (Pix m) (y * Stride m + x * 4) (y * Stride d + x * 4))) (Pix d) = Inr pix'"
    "length pix' = length (Pix d)"
    "\<And>x y. 0 \<le> x \<Longrightarrow> x < ?w \<Longrightarrow> 0 \<le> y \<Longrightarrow> y < ?h \<Longrightarrow>
       readPixel pix' (y * Stride d + x * 4) = Inr (grayColour (c x y))"
    by blast
  have "\<exists>c. readPixel (Pix m) (PixOffset m x y) = Inr c \<and>
            readPixel pix' (PixOffset d x y) = Inr (grayColour c)"
    if "PointIn (Pt x y) (Rect m)" for x y
  proof -
    from that have b: "0 \<le> x - ?x0" "x - ?x0 < ?w" "0 \<le> y - ?y0" "y - ?y0 < ?h"
      by (simp_all add: PointIn_def Dx_def Dy_def)
    from rd [OF b] pix'(3) [OF b] offm [of "x - ?x0" "y - ?y0"] offd [of "x - ?x0" "y - ?y0"]
    show ?thesis by simp
  qed
  with pix'(1,2) show ?thesis by blast
qed

lemma grayscaleImage_spec:
  assumes "wfImage img"
  shows "\<exists>dst. grayscaleImage img = Inr dst \<and> wfRGBA dst \<and> Rect dst = Bounds img \<and>
           Stride dst = 4 * Dx (Bounds img) \<and>
           int (length (Pix dst)) = 4 * Dx (Bounds img) * Dy (Bounds img) \<and>
           (\<forall>x y. PointIn (Pt x y) (Bounds img) \<longrightarrow>
              (\<exists>c. srcColour8 img x y = Inr c \<and>
                   readPixel (Pix dst) (PixOffset dst x y) = Inr (grayColour c)))"
proof -
  from toRGBA_spec [OF assms] obtain m where m: "toRGBA img = Inr m" "wfRGBA m"
    "Rect m = Bounds img"
    "\<And>x y. PointIn (Pt x y) (Bounds img) \<Longrightarrow>
       \<exists>c. srcColour8 img x y = Inr c \<and> readPixel (Pix m) (PixOffset m x y) = Inr c"
    by blast
  have nn: "0 \<le> Dx (Bounds img)" "0 \<le> Dy (Bounds img)"
    using m(2,3) by (simp_all add: wfRGBA_def)
  obtain d where d: "NewRGBA (Bounds img) = Inr d"
    using NewRGBA_ok [OF nn] by blast
  note wd = wfRGBA_NewRGBA [OF d]
  from grayscaleLoop [OF m(2) wd(1), unfolded m(3), OF wd(2,3,4)]
  obtain pix' where pix': "forLoop 0 (Dy (Bounds img)) (\<lambda>y. forLoop 0 (Dx (Bounds img)) (\<lambda>x.
            grayscalePixel (Pix m) (y * Stride m + x * 4) (y * Stride d + x * 4))) (Pix d) = Inr pix'"
    "length pix' = length (Pix d)"
    "\<And>x y. PointIn (Pt x y) (Bounds img) \<Longrightarrow>
       \<exists>c. readPixel (Pix m) (PixOffset m x y) = Inr c \<and>
           readPixel pix' (PixOffset d x y) = Inr (grayColour c)"
    by blast
  let ?dst = "d\<lparr>Pix := pix'\<rparr>"
  have g: "grayscaleImage img = Inr ?dst"
    using m(1) d pix'(1) by (simp add: grayscaleImage_def Let_def)
  have off: "PixOffset ?dst x y = PixOffset d x y" for x y by (simp add: PixOffset_def)
  have wf: "wfRGBA ?dst" using wd(1) pix'(2) by (simp add: wfRGBA_def)
  have px: "\<exists>c. srcColour8 img x y = Inr c \<and>
      readPixel (Pix ?dst) (PixOffset ?dst x y) = Inr (grayColour c)"
    if "PointIn (Pt x y) (Bounds img)" for x y
    using m(4) [OF that] pix'(3) [OF that] by (auto simp: off)
  from g wf wd(2,3,4) pix'(2) px show ?thesis
    by (intro exI [of _ ?dst]) simp
qed

lemma grayscaleDirectImage_eq: "grayscaleDirectImage img = grayscaleImage img"
  by (simp add: grayscaleDirectImage_def grayscaleImage_def Let_def)

subsection \<open>Grayscale\<close>

lemma gray_0_0_0: "gray 0 0 0 = 0"
  by code_simp

lemma gray_0_1_0: "gray 0 1 0 = 0"
  by code_simp

lemma gray_0_10_0: "gray 0 10 0 = 7"
  by code_simp

lemma gray_7_7_7: "gray 7 7 7 = 6"
  by code_simp

lemma spec_gray_0_1_0: "spec_gray 0 1 0 = 1"
  by code_simp

lemma onePixel_rect:
  "Rect (onePixel x0 y0 c) = \<lparr>MinP = Pt x0 y0, MaxP = Pt (x0 + 1) (y0 + 1)\<rparr>"
  "Stride (onePixel x0 y0 c) = 4"
  by (cases c; simp add: onePixel_def image_Rect_def)+

lemma onePixel_Dx [simp]: "Dx (Rect (onePixel x0 y0 c)) = 1" "Dy (Rect (onePixel x0 y0 c)) = 1"
  by (simp_all add: onePixel_rect Dx_def Dy_def)

lemma grayscaleImage_onePixel:
  "grayscaleImage (RGBAImage (onePixel x0 y0 c)) = Inr (onePixel x0 y0 (grayColour c))"
proof -
  obtain r g b a where c: "c = (r, g, b, a)" by (cases c) auto
  show ?thesis
    unfolding c
    by (simp add: grayscaleImage_def toRGBA_def NewRGBA_def Let_def forLoop_step forLoop_done
        grayscalePixel_def readPixel_def readPix_def writePixel_def writePix_def grayColour_def
        onePixel_def Dx_def Dy_def image_Rect_def eval_nat_numeral)
qed

lemma getImage_Some: "getImage s (Some a) = Inr img \<Longrightarrow> a < length (images s) \<and> images s ! a = img"
  by (auto simp: getImage_def split: if_splits)

lemma replaceImage_eq:
  "replaceImage s ip p img =
     s\<lparr>procs := (procs s)[ip := p\<lparr>currentImage := Some (length (images s))\<rparr>],
       images := images s @ [RGBAImage img]\<rparr>"
  by (simp add: replaceImage_def allocImage_def setProc_def)

lemma getProc_replaceImage:
  "ip < length (procs s) \<Longrightarrow>
   getProc (replaceImage s ip p img) ip = Inr (p\<lparr>currentImage := Some (length (images s))\<rparr>)"
  by (simp add: replaceImage_eq getProc_def)

lemma getProc_lt: "getProc s ip = Inr p \<Longrightarrow> ip < length (procs s)"
  by (auto simp: getProc_def split: if_splits)

lemma Grayscale_ready:
  assumes "getProc s ip = Inr p" and "err p = None" and "currentImage p = Some a"
    and "getImage s (Some a) = Inr img"
  shows "Grayscale ip s = bindR (grayscaleImage img) (\<lambda>dst. Inr (ip, replaceImage s ip p dst))"
  using assms by (simp add: Grayscale_def)

text \<open>
  Claim C2, amended. On a processor with no latched error and a well-formed current image,
  \<^verbatim>\<open>Grayscale\<close> returns the same processor, now holding a new RGBA image with the bounds
  of the source, stored at a new address; the images that the store held are all
  unchanged. At every point of the bounds the new image has the alpha of the source pixel,
  and in its three colour channels the float64 value of
  \<^verbatim>\<open>0.2126*R + 0.7152*G + 0.0722*B\<close> truncated towards zero, not rounded to the nearest
  integer.
\<close>

theorem Grayscale_truncates:
  assumes "getProc s ip = Inr p" and "err p = None" and "currentImage p = Some a"
    and "getImage s (Some a) = Inr img" and "wfImage img"
  shows "\<exists>dst s'. Grayscale ip s = Inr (ip, s') \<and>
           getProc s' ip = Inr (p\<lparr>currentImage := Some (length (images s))\<rparr>) \<and>
           images s' = images s @ [RGBAImage dst] \<and>
           Rect dst = Bounds img \<and> Stride dst = 4 * Dx (Bounds img) \<and>
           int (length (Pix dst)) = 4 * Dx (Bounds img) * Dy (Bounds img) \<and>
           (\<forall>x y. PointIn (Pt x y) (Bounds img) \<longrightarrow>
              (\<exists>r g b al. srcColour8 img x y = Inr (r, g, b, al) \<and>
                 readPixel (Pix dst) (PixOffset dst x y) =
                   Inr (word_of_int \<lfloor>luminosity r g b\<rfloor>, word_of_int \<lfloor>luminosity r g b\<rfloor>,
                        word_of_int \<lfloor>luminosity r g b\<rfloor>, al)))"
proof -
  from grayscaleImage_spec [OF assms(5)] obtain dst where dst:
    "grayscaleImage img = Inr dst" "Rect dst = Bounds img" "Stride dst = 4 * Dx (Bounds img)"
    "int (length (Pix dst)) = 4 * Dx (Bounds img) * Dy (Bounds img)"
    "\<And>x y. PointIn (Pt x y) (Bounds img) \<Longrightarrow>
       \<exists>c. srcColour8 img x y = Inr c \<and>
           readPixel (Pix dst) (PixOffset dst x y) = Inr (grayColour c)"
    by blast
  have g: "Grayscale ip s = Inr (ip, replaceImage s ip p dst)"
    using Grayscale_ready [OF assms(1-4)] dst(1) by simp
  have px: "\<exists>r g b al. srcColour8 img x y = Inr (r, g, b, al) \<and>
      readPixel (Pix dst) (PixOffset dst x y) =
        Inr (word_of_int \<lfloor>luminosity r g b\<rfloor>, word_of_int \<lfloor>luminosity r g b\<rfloor>,
             word_of_int \<lfloor>luminosity r g b\<rfloor>, al)"
    if "PointIn (Pt x y) (Bounds img)" for x y
  proof -
    from dst(5) [OF that] obtain c where c: "srcColour8 img x y = Inr c"
      "readPixel (Pix dst) (PixOffset dst x y) = Inr (grayColour c)" by blast
    obtain r g b al where "c = (r, g, b, al)" by (cases c) auto
    with c show ?thesis by (simp add: grayColour_def gray_def)
  qed
  show ?thesis
    using g getProc_replaceImage [OF getProc_lt [OF assms(1)], of p dst] dst(2,3,4) px
    by (intro exI [of _ dst] exI [of _ "replaceImage s ip p dst"])
       (simp add: replaceImage_eq)
qed

lemma wfRGBA_onePixel: "wfRGBA (onePixel x0 y0 c)"
  by (cases c) (simp add: wfRGBA_def onePixel_def Dx_def Dy_def image_Rect_def)

lemma readyStore_image:
  "getImage (readyStore c) (Some 0) = Inr (RGBAImage (onePixel 0 0 c))"
  by (simp add: getImage_def readyStore_images)

lemma observable_replaceImage:
  assumes "ip < length (procs s)"
  shows "observable (replaceImage s ip p img) ip = Inr (Some (RGBAImage img), err p, perfOpts p)"
  using assms by (simp add: observable_def replaceImage_eq getProc_def getImage_def)

lemma Grayscale_onePixel:
  assumes "getProc s ip = Inr p" and "err p = None" and "currentImage p = Some a"
    and "getImage s (Some a) = Inr (RGBAImage (onePixel x0 y0 c))"
  shows "Grayscale ip s = Inr (ip, replaceImage s ip p (onePixel x0 y0 (grayColour c)))"
  using Grayscale_ready [OF assms] by (simp add: grayscaleImage_onePixel)

lemma resultImage_replaceImage:
  "ip < length (procs s) \<Longrightarrow>
   resultImage (Inr (ip, replaceImage s ip p img)) = Some (RGBAImage img)"
  by (simp add: resultImage_def observable_replaceImage)

lemma Grayscale_readyStore:
  "Grayscale 0 (readyStore c) =
     Inr (0, replaceImage (readyStore c) 0
               \<lparr>currentImage = Some 0, err = None, perfOpts = DefaultPerformanceOptions 4\<rparr>
               (onePixel 0 0 (grayColour c)))"
  by (rule Grayscale_onePixel [OF readyStore_proc _ _ readyStore_image]) simp_all

text \<open>
  Claim C2 says that the grey level is the weighted sum rounded to the nearest integer.
  For the pixel \<open>(0, 1, 0, 255)\<close> the sum is \<open>0.7152\<close>, which rounds to 1, and
  \<^verbatim>\<open>Grayscale\<close> writes 0.
\<close>

theorem Grayscale_truncates_counterexample:
  "spec_gray 0 1 0 = 1 \<and>
   resultImage (Grayscale 0 (readyStore (0, 1, 0, 255))) =
     Some (RGBAImage (onePixel 0 0 (0, 0, 0, 255)))"
  using getProc_lt [OF readyStore_proc]
  by (simp add: spec_gray_0_1_0 Grayscale_readyStore resultImage_replaceImage grayColour_def
      gray_0_1_0)

theorem Grayscale_truncates_witness:
  "getProc (readyStore (0, 1, 0, 255)) 0 =
     Inr \<lparr>currentImage = Some 0, err = None, perfOpts = DefaultPerformanceOptions 4\<rparr> \<and>
   getImage (readyStore (0, 1, 0, 255)) (Some 0) = Inr (RGBAImage (onePixel 0 0 (0, 1, 0, 255))) \<and>
   wfImage (RGBAImage (onePixel 0 0 (0, 1, 0, 255))) \<and>
   PointIn (Pt 0 0) (Bounds (RGBAImage (onePixel 0 0 (0, 1, 0, 255)))) \<and>
   srcColour8 (RGBAImage (onePixel 0 0 (0, 1, 0, 255))) 0 0 = Inr (0, 1, 0, 255) \<and>
   (\<exists>dst s'. Grayscale 0 (readyStore (0, 1, 0, 255)) = Inr (0, s') \<and>
      images s' = [RGBAImage (onePixel 0 0 (0, 1, 0, 255)), RGBAImage dst] \<and>
      Rect dst = Rect (onePixel 0 0 (0, 1, 0, 255)) \<and>
      readPixel (Pix dst) (PixOffset dst 0 0) = Inr (0, 0, 0, 255))"
proof -
  let ?img = "RGBAImage (onePixel 0 0 (0, 1, 0, 255))"
  have wf: "wfImage ?img" by (simp add: wfRGBA_onePixel)
  have pin: "PointIn (Pt 0 0) (Bounds ?img)"
    by (simp add: PointIn_def onePixel_rect)
  have sc: "srcColour8 ?img 0 0 = Inr (0, 1, 0, 255)"
    by (simp add: srcColour8_def PixOffset_def onePixel_rect)
       (simp add: onePixel_def readPixel_def readPix_def)
  from Grayscale_truncates [OF readyStore_proc _ _ readyStore_image wf]
  obtain dst s' where r: "Grayscale 0 (readyStore (0, 1, 0, 255)) = Inr (0, s')"
    "images s' = images (readyStore (0, 1, 0, 255)) @ [RGBAImage dst]"
    "Rect dst = Bounds ?img"
    "\<And>x y. PointIn (Pt x y) (Bounds ?img) \<Longrightarrow>
       \<exists>r g b al. srcColour8 ?img x y = Inr (r, g, b, al) \<and>
         readPixel (Pix dst) (PixOffset dst x y) =
           Inr (word_of_int \<lfloor>luminosity r g b\<rfloor>, word_of_int \<lfloor>luminosity r g b\<rfloor>,
                word_of_int \<lfloor>luminosity r g b\<rfloor>, al)"
    by auto
  from r(4) [OF pin] sc have "readPixel (Pix dst) (PixOffset dst 0 0) = Inr (0, 0, 0, 255)"
    using gray_0_1_0 by (simp add: gray_def)
  with r(1,2,3) wf pin sc show ?thesis
    by (simp add: readyStore_proc readyStore_image readyStore_images del: wfImage.simps)
qed

subsection \<open>Crop\<close>

lemma image_Rect_pos:
  assumes "0 < width" and "0 < height"
  shows "image_Rect x y (x + width) (y + height) =
           \<lparr>MinP = Pt x y, MaxP = Pt (x + width) (y + height)\<rparr>"
  using assms by (simp add: image_Rect_def)

lemma In_crop_iff:
  assumes "0 < width" and "0 < height"
  shows "In (image_Rect x y (x + width) (y + height)) b \<longleftrightarrow>
           X (MinP b) \<le> x \<and> x + width \<le> X (MaxP b) \<and> Y (MinP b) \<le> y \<and> y + height \<le> Y (MaxP b)"
  using assms by (auto simp: image_Rect_pos In_def Empty_def)

lemma Crop_ready:
  assumes "getProc s ip = Inr p" and "err p = None" and "currentImage p = Some a"
    and "getImage s (Some a) = Inr img" and "0 < width" and "0 < height"
  shows "Crop ip x y width height s =
     (if \<not> In (image_Rect x y (x + width) (y + height)) (Bounds img)
      then Inr (ip, setProc s ip
             (p\<lparr>err := Some (CropOutOfBounds (image_Rect x y (x + width) (y + height)) (Bounds img))\<rparr>))
      else bindR (NewRGBA (image_Rect 0 0 width height)) (\<lambda>croppedImg.
           bindR (drawSrc croppedImg (Rect croppedImg) img (MinP (image_Rect x y (x + width) (y + height))))
             (\<lambda>croppedImg'. Inr (ip, replaceImage s ip p croppedImg'))))"
  using assms by (simp add: Crop_def Let_def newRGBA_def)

text \<open>
  Claim C5. On a processor with no latched error and a well-formed current image,
  \<^verbatim>\<open>Crop(x, y, width, height)\<close> with a positive width and height does the following. When the
  rectangle \<open>[x, x + width) \<times> [y, y + height)\<close> lies in the bounds of the image, the
  processor gets a new RGBA image with the rectangle \<open>(0, 0)-(width, height)\<close> and
  \<open>4 * width * height\<close> bytes, whose pixel \<open>(i, j)\<close> has the four components of the source
  pixel \<open>(x + i, y + j)\<close>; in particular its pixel \<open>(0, 0)\<close> is the source pixel
  \<open>(x, y)\<close>. When the rectangle passes an edge of the bounds, the call latches the
  out-of-bounds error and adds no image.
\<close>

theorem Crop_copies:
  assumes "getProc s ip = Inr p" and "err p = None" and "currentImage p = Some a"
    and "getImage s (Some a) = Inr img" and "wfImage img" and "0 < width" and "0 < height"
  shows "(X (MinP (Bounds img)) \<le> x \<and> x + width \<le> X (MaxP (Bounds img)) \<and>
          Y (MinP (Bounds img)) \<le> y \<and> y + height \<le> Y (MaxP (Bounds img)) \<longrightarrow>
            (\<exists>dst s'. Crop ip x y width height s = Inr (ip, s') \<and>
               getProc s' ip = Inr (p\<lparr>currentImage := Some (length (images s))\<rparr>) \<and>
               images s' = images s @ [RGBAImage dst] \<and>
               Rect dst = \<lparr>MinP = Pt 0 0, MaxP = Pt width height\<rparr> \<and>
               Stride dst = 4 * width \<and> int (length (Pix dst)) = 4 * width * height \<and>
               (\<forall>i j. 0 \<le> i \<and> i < width \<and> 0 \<le> j \<and> j < height \<longrightarrow>
                  (\<exists>c. srcColour8 img (x + i) (y + j) = Inr c \<and>
                       readPixel (Pix dst) (PixOffset dst i j) = Inr c)))) \<and>
         (\<not> (X (MinP (Bounds img)) \<le> x \<and> x + width \<le> X (MaxP (Bounds img)) \<and>
             Y (MinP (Bounds img)) \<le> y \<and> y + height \<le> Y (MaxP (Bounds img))) \<longrightarrow>
            (\<exists>s'. Crop ip x y width height s = Inr (ip, s') \<and>
               getProc s' ip =
                 Inr (p\<lparr>err := Some (CropOutOfBounds
                        \<lparr>MinP = Pt x y, MaxP = Pt (x + width) (y + height)\<rparr> (Bounds img))\<rparr>) \<and>
               images s' = images s))"
proof (intro conjI impI)
  let ?cr = "image_Rect x y (x + width) (y + height)"
  note cr = image_Rect_pos [OF assms(6,7), of x y]
  note iff = In_crop_iff [OF assms(6,7), of x y "Bounds img"]
  {
    assume inb: "X (MinP (Bounds img)) \<le> x \<and> x + width \<le> X (MaxP (Bounds img)) \<and>
          Y (MinP (Bounds img)) \<le> y \<and> y + height \<le> Y (MaxP (Bounds img))"
    then have "In ?cr (Bounds img)" by (simp add: iff)
    have r0: "image_Rect 0 0 width height = \<lparr>MinP = Pt 0 0, MaxP = Pt width height\<rparr>"
      using image_Rect_pos [OF assms(6,7), of 0 0] by simp
    have d0: "Dx (image_Rect 0 0 width height) = width" "Dy (image_Rect 0 0 width height) = height"
      by (simp_all add: r0 Dx_def Dy_def)
    obtain d where d: "NewRGBA (image_Rect 0 0 width height) = Inr d"
      using NewRGBA_ok [of "image_Rect 0 0 width height"] assms(6,7) by (simp add: d0)
    note wd = wfRGBA_NewRGBA [OF d]
    have "\<exists>d'. drawSrc d (Rect d) img (MinP ?cr) = Inr d' \<and> Rect d' = Rect d \<and>
           Stride d' = Stride d \<and> length (Pix d') = length (Pix d) \<and>
           (\<forall>i j. PointIn (Pt i j) (Rect d) \<longrightarrow>
              (\<exists>c. srcColour8 img (X (MinP ?cr) + i - X (MinP (Rect d)))
                                   (Y (MinP ?cr) + j - Y (MinP (Rect d))) = Inr c \<and>
                   readPixel (Pix d') (PixOffset d' i j) = Inr c))"
      by (rule drawSrc_spec [OF wd(1) assms(5)])
         (use inb in \<open>simp add: wd(2) r0 cr In_def Empty_def AddPt_def\<close>)
    then obtain d' where d': "drawSrc d (Rect d) img (MinP ?cr) = Inr d'" "Rect d' = Rect d"
      "Stride d' = Stride d" "length (Pix d') = length (Pix d)"
      "\<And>i j. PointIn (Pt i j) (Rect d) \<Longrightarrow>
         \<exists>c. srcColour8 img (X (MinP ?cr) + i - X (MinP (Rect d)))
                              (Y (MinP ?cr) + j - Y (MinP (Rect d))) = Inr c \<and>
              readPixel (Pix d') (PixOffset d' i j) = Inr c"
      by blast
    have c: "Crop ip x y width height s = Inr (ip, replaceImage s ip p d')"
      using Crop_ready [OF assms(1-4,6,7), of x y] \<open>In ?cr (Bounds img)\<close> d d'(1) by simp
    have px: "\<exists>c. srcColour8 img (x + i) (y + j) = Inr c \<and>
        readPixel (Pix d') (PixOffset d' i j) = Inr c"
      if "0 \<le> i \<and> i < width \<and> 0 \<le> j \<and> j < height" for i j
      using d'(5) [of i j] that by (simp add: wd(2) r0 cr PointIn_def)
    show "\<exists>dst s'. Crop ip x y width height s = Inr (ip, s') \<and>
               getProc s' ip = Inr (p\<lparr>currentImage := Some (length (images s))\<rparr>) \<and>
               images s' = images s @ [RGBAImage dst] \<and>
               Rect dst = \<lparr>MinP = Pt 0 0, MaxP = Pt width height\<rparr> \<and>
               Stride dst = 4 * width \<and> int (length (Pix dst)) = 4 * width * height \<and>
               (\<forall>i j. 0 \<le> i \<and> i < width \<and> 0 \<le> j \<and> j < height \<longrightarrow>
                  (\<exists>c. srcColour8 img (x + i) (y + j) = Inr c \<and>
                       readPixel (Pix dst) (PixOffset dst i j) = Inr c))"
      using c getProc_replaceImage [OF getProc_lt [OF assms(1)], of p d'] d'(2,3,4) wd(2,3,4) px
      by (intro exI [of _ d'] exI [of _ "replaceImage s ip p d'"])
         (simp add: replaceImage_eq r0 Dx_def Dy_def)
  }
  {
    assume "\<not> (X (MinP (Bounds img)) \<le> x \<and> x + width \<le> X (MaxP (Bounds img)) \<and>
             Y (MinP (Bounds img)) \<le> y \<and> y + height \<le> Y (MaxP (Bounds img)))"
    then have "\<not> In ?cr (Bounds img)" by (simp add: iff)
    then have "Crop ip x y width height s = Inr (ip, setProc s ip
             (p\<lparr>err := Some (CropOutOfBounds ?cr (Bounds img))\<rparr>))"
      using Crop_ready [OF assms(1-4,6,7), of x y] by simp
    then show "\<exists>s'. Crop ip x y width height s = Inr (ip, s') \<and>
               getProc s' ip =
                 Inr (p\<lparr>err := Some (CropOutOfBounds
                        \<lparr>MinP = Pt x y, MaxP = Pt (x + width) (y + height)\<rparr> (Bounds img))\<rparr>) \<and>
               images s' = images s"
      using getProc_lt [OF assms(1)] by (simp add: cr setProc_def getProc_def)
  }
qed


theorem Crop_copies_witness:
  "getProc (readyStore (1, 2, 3, 4)) 0 =
     Inr \<lparr>currentImage = Some 0, err = None, perfOpts = DefaultPerformanceOptions 4\<rparr> \<and>
   getImage (readyStore (1, 2, 3, 4)) (Some 0) = Inr (RGBAImage (onePixel 0 0 (1, 2, 3, 4))) \<and>
   wfImage (RGBAImage (onePixel 0 0 (1, 2, 3, 4))) \<and>
   Bounds (RGBAImage (onePixel 0 0 (1, 2, 3, 4))) = \<lparr>MinP = Pt 0 0, MaxP = Pt 1 1\<rparr> \<and>
   (\<exists>dst s'. Crop 0 0 0 1 1 (readyStore (1, 2, 3, 4)) = Inr (0, s') \<and>
      images s' = [RGBAImage (onePixel 0 0 (1, 2, 3, 4)), RGBAImage dst] \<and>
      Rect dst = \<lparr>MinP = Pt 0 0, MaxP = Pt 1 1\<rparr> \<and>
      readPixel (Pix dst) (PixOffset dst 0 0) = Inr (1, 2, 3, 4)) \<and>
   (\<exists>s'. Crop 0 0 0 2 1 (readyStore (1, 2, 3, 4)) = Inr (0, s') \<and>
      getProc s' 0 =
        Inr \<lparr>currentImage = Some 0,
               err = Some (CropOutOfBounds \<lparr>MinP = Pt 0 0, MaxP = Pt 2 1\<rparr>
                             \<lparr>MinP = Pt 0 0, MaxP = Pt 1 1\<rparr>),
               perfOpts = DefaultPerformanceOptions 4\<rparr> \<and>
      images s' = images (readyStore (1, 2, 3, 4)))"
proof -
  let ?c = "(1, 2, 3, 4) :: colour8"
  let ?img = "RGBAImage (onePixel 0 0 ?c)"
  have wf: "wfImage ?img" by (simp add: wfRGBA_onePixel)
  have b: "Bounds ?img = \<lparr>MinP = Pt 0 0, MaxP = Pt 1 1\<rparr>" by (simp add: onePixel_rect)
  have sc: "srcColour8 ?img 0 0 = Inr ?c"
    by (simp add: srcColour8_def PixOffset_def onePixel_rect)
       (simp add: onePixel_def readPixel_def readPix_def)
  note t1 = Crop_copies [OF readyStore_proc _ _ readyStore_image wf, of 1 1 0 0]
  note t2 = Crop_copies [OF readyStore_proc _ _ readyStore_image wf, of 2 1 0 0]
  from t1 obtain dst s' where r: "Crop 0 0 0 1 1 (readyStore ?c) = Inr (0, s')"
    "images s' = images (readyStore ?c) @ [RGBAImage dst]"
    "Rect dst = \<lparr>MinP = Pt 0 0, MaxP = Pt 1 1\<rparr>"
    "\<And>i j. 0 \<le> i \<and> i < 1 \<and> 0 \<le> j \<and> j < 1 \<Longrightarrow>
       \<exists>c. srcColour8 ?img (0 + i) (0 + j) = Inr c \<and> readPixel (Pix dst) (PixOffset dst i j) = Inr c"
    unfolding b by auto
  from r(4) [of 0 0] sc have px: "readPixel (Pix dst) (PixOffset dst 0 0) = Inr ?c" by simp
  from t2 obtain s'' where r2: "Crop 0 0 0 2 1 (readyStore ?c) = Inr (0, s'')"
    "getProc s'' 0 =
        Inr \<lparr>currentImage = Some 0,
               err = Some (CropOutOfBounds \<lparr>MinP = Pt 0 0, MaxP = Pt 2 1\<rparr>
                             \<lparr>MinP = Pt 0 0, MaxP = Pt 1 1\<rparr>),
               perfOpts = DefaultPerformanceOptions 4\<rparr>"
    "images s'' = images (readyStore ?c)"
    unfolding b by auto
  from r(1,2,3) px r2 wf b show ?thesis
    by (simp add: readyStore_proc readyStore_image readyStore_images del: wfImage.simps Bounds.simps)
qed

subsection \<open>The parallel engine against the sequential one\<close>

lemma forLoop_one: "forLoop i (i + 1) body s = body i s"
  by (simp add: forLoop_step forLoop_done bindR_def split: sum.splits)

lemma forLoop_snoc:
  assumes "a \<le> b"
  shows "forLoop a (b + 1) body s = bindR (forLoop a b body s) (body b)"
proof -
  have "forLoop a (b + 1) body s = bindR (forLoop a b body s) (forLoop b (b + 1) body)"
    by (rule forLoop_split) (use assms in simp_all)
  also have "forLoop b (b + 1) body = body b" by (rule ext) (rule forLoop_one)
  finally show ?thesis .
qed

lemma bindR_assoc: "bindR (bindR m f) g = bindR m (\<lambda>v. bindR (f v) g)"
  by (cases m) simp_all

lemma strips_loop_inner:
  assumes "0 \<le> k" and "0 \<le> r"
  shows "forLoop 0 k (\<lambda>i. forLoop (i * r) (i * r + r) rowBody) s = forLoop 0 (k * r) rowBody s"
  using assms(1)
proof (induction k rule: int_ge_induct)
  case base
  show ?case by (simp add: forLoop_done)
next
  case (step k)
  have le: "0 \<le> k * r" "k * r \<le> k * r + r" using step.hyps assms(2) by simp_all
  have "forLoop 0 (k + 1) (\<lambda>i. forLoop (i * r) (i * r + r) rowBody) s =
        bindR (forLoop 0 k (\<lambda>i. forLoop (i * r) (i * r + r) rowBody) s)
          (forLoop (k * r) (k * r + r) rowBody)"
    by (rule forLoop_snoc [OF step.hyps])
  also have "\<dots> = bindR (forLoop 0 (k * r) rowBody s) (forLoop (k * r) (k * r + r) rowBody)"
    by (simp add: step.IH)
  also have "\<dots> = forLoop 0 (k * r + r) rowBody s"
    by (rule forLoop_split [OF le, symmetric])
  finally show ?case by (simp add: algebra_simps)
qed

lemma strips_loop:
  assumes n: "1 \<le> n" "n \<le> height"
  shows "forLoop 0 n
           (\<lambda>i dpix. case strip height n (height div n) i of (startRow, endRow) \<Rightarrow>
                   forLoop startRow endRow rowBody dpix) s =
         forLoop 0 height rowBody s"
proof -
  define r where "r = height div n"
  let ?G = "\<lambda>i dpix. case strip height n r i of (startRow, endRow) \<Rightarrow>
              forLoop startRow endRow rowBody dpix"
  have r: "0 \<le> r" using rows_pos [OF n] by (simp add: r_def)
  have last: "(n - 1) * r \<le> height"
  proof -
    have "0 \<le> height mod n" using n(1) by simp
    with last_start_le [OF n(1), of height] r show ?thesis unfolding r_def by linarith
  qed
  have "forLoop 0 n ?G s = forLoop 0 (n - 1 + 1) ?G s" by simp
  also have "\<dots> = bindR (forLoop 0 (n - 1) ?G s) (?G (n - 1))"
    by (rule forLoop_snoc) (use n in simp)
  also have "forLoop 0 (n - 1) ?G s =
      forLoop 0 (n - 1) (\<lambda>i. forLoop (i * r) (i * r + r) rowBody) s"
    by (rule forLoop_cong) (simp add: strip_inner)
  also have "\<dots> = forLoop 0 ((n - 1) * r) rowBody s"
    by (rule strips_loop_inner) (use n r in simp_all)
  also have "?G (n - 1) = forLoop ((n - 1) * r) height rowBody"
    by (rule ext) (simp add: strip_last)
  also have "bindR (forLoop 0 ((n - 1) * r) rowBody s) (forLoop ((n - 1) * r) height rowBody) =
      forLoop 0 height rowBody s"
    by (rule forLoop_split [symmetric]) (use n r last in simp_all)
  finally show ?thesis by (simp add: r_def)
qed

lemma grayscaleParallelImage_eq:
  assumes "X (MinP (Bounds img)) = 0" and "Y (MinP (Bounds img)) = 0"
    and "1 \<le> Dy (Bounds img)" and "1 \<le> numCPU"
  shows "grayscaleParallelImage numCPU opts img = grayscaleImage img"
proof -
  let ?h = "Dy (Bounds img)"
  let ?n = "numGoroutines numCPU opts ?h"
  have n: "1 \<le> ?n" "?n \<le> ?h"
    by (rule numGoroutines_pos [OF assms(3,4)], rule numGoroutines_le)
  have q: "quo ?h ?n = Inr (?h div ?n)" using assms(3) n by (simp add: quo_pos)
  have loop: "forLoop 0 ?n
      (goroutine (Bounds img) m S (Dx (Bounds img)) ?h ?n (?h div ?n)) pix =
    forLoop 0 ?h (\<lambda>y. forLoop 0 (Dx (Bounds img)) (\<lambda>x.
      grayscalePixel (Pix m) (y * Stride m + x * 4) (y * S + x * 4))) pix" for m S pix
    using strips_loop [OF n, of "\<lambda>y. forLoop 0 (Dx (Bounds img)) (\<lambda>x.
      grayscalePixel (Pix m) (y * Stride m + x * 4) (y * S + x * 4))" pix]
    by (simp add: goroutine_def [abs_def] assms(1,2) Let_def)
  show ?thesis
    using n(1) by (simp add: grayscaleParallelImage_def grayscaleImage_def Let_def q loop)
qed


text \<open>
  Where the rectangle of the current image starts at \<open>(0, 0)\<close> and has at least one row,
  \<^verbatim>\<open>GrayscaleFast\<close> and \<^verbatim>\<open>Grayscale\<close> return the same result, whatever the options are:
  the rows of the goroutines, taken in order, are the rows of the sequential loop.
\<close>

lemma GrayscaleFast_eq_Grayscale:
  assumes "getProc s ip = Inr p" and "err p = None" and "currentImage p = Some a"
    and "getImage s (Some a) = Inr img"
    and "X (MinP (Bounds img)) = 0" and "Y (MinP (Bounds img)) = 0"
    and "1 \<le> Dy (Bounds img)" and "1 \<le> NumCPU lib"
  shows "GrayscaleFast lib ip s = Grayscale ip s"
  using assms(1-4) grayscaleParallelImage_eq [OF assms(5-8)]
  by (simp add: GrayscaleFast_def grayscaleParallel_def grayscaleDirect_def Grayscale_def
      grayscaleDirectImage_eq Let_def)

lemma shiftedStore_proc:
  "getProc shiftedStore 0 = Inr \<lparr>currentImage = Some 0, err = None, perfOpts = alwaysParallel\<rparr>"
  by (simp add: shiftedStore_def NewWithPerformanceOptions_def allocProc_def allocImage_def
      emptyStore_def getProc_def)

lemma shiftedStore_image:
  "getImage shiftedStore (Some 0) = Inr (RGBAImage (onePixel 0 1 (0, 10, 0, 255)))"
  by (simp add: shiftedStore_def NewWithPerformanceOptions_def allocProc_def allocImage_def
      emptyStore_def getImage_def)

lemma grayscaleParallelImage_shifted:
  "grayscaleParallelImage numCPU alwaysParallel (RGBAImage (onePixel 0 1 c)) = Inl IndexOutOfRange"
proof -
  obtain r g b a where c: "c = (r, g, b, a)" by (cases c) auto
  show ?thesis
    unfolding c
    by (simp add: grayscaleParallelImage_def toRGBA_def NewRGBA_def Let_def alwaysParallel_def
        numGoroutines_def quo_def goroutine_def strip_def forLoop_step forLoop_done
        grayscalePixel_def readPixel_def readPix_def onePixel_def Dx_def Dy_def image_Rect_def)
qed

text \<open>
  Claim C1 fails where the rectangle of the image does not start at \<open>(0, 0)\<close>. The rows
  \<open>y\<close> of a goroutine count from 0, and \<^verbatim>\<open>grayscaleParallel\<close> subtracts \<^verbatim>\<open>bounds.Min\<close> from
  them once more: for the one-pixel image with the rectangle \<open>(0, 1)-(1, 2)\<close> the first
  index is \<open>-4\<close> and the program panics, while \<^verbatim>\<open>Grayscale\<close> returns the grey pixel.
\<close>

theorem GrayscaleFast_shifted_origin_panics:
  "resultImage (Grayscale 0 shiftedStore) = Some (RGBAImage (onePixel 0 1 (7, 7, 7, 255))) \<and>
   GrayscaleFast sampleLibrary 0 shiftedStore = Inl IndexOutOfRange"
proof -
  have "Grayscale 0 shiftedStore =
      Inr (0, replaceImage shiftedStore 0
                \<lparr>currentImage = Some 0, err = None, perfOpts = alwaysParallel\<rparr>
                (onePixel 0 1 (grayColour (0, 10, 0, 255))))"
    by (rule Grayscale_onePixel [OF shiftedStore_proc _ _ shiftedStore_image]) simp_all
  then have "resultImage (Grayscale 0 shiftedStore) =
      Some (RGBAImage (onePixel 0 1 (7, 7, 7, 255)))"
    using getProc_lt [OF shiftedStore_proc]
    by (simp add: resultImage_replaceImage grayColour_def gray_0_10_0)
  moreover have "GrayscaleFast sampleLibrary 0 shiftedStore = Inl IndexOutOfRange"
    using shiftedStore_proc shiftedStore_image
    by (simp add: GrayscaleFast_def grayscaleParallel_def grayscaleParallelImage_shifted
        alwaysParallel_def [symmetric])
       (simp add: alwaysParallel_def)
  ultimately show ?thesis by simp
qed

lemma noRowsStore_proc:
  "getProc noRowsStore 0 = Inr \<lparr>currentImage = Some 0, err = None, perfOpts = alwaysParallel\<rparr>"
  by (simp add: noRowsStore_def NewWithPerformanceOptions_def allocProc_def allocImage_def
      emptyStore_def getProc_def)

lemma noRowsStore_image:
  "getImage noRowsStore (Some 0) =
     Inr (RGBAImage \<lparr>Pix = [], Stride = 0, Rect = image_Rect 0 0 0 0\<rparr>)"
  by (simp add: noRowsStore_def NewWithPerformanceOptions_def allocProc_def allocImage_def
      emptyStore_def getImage_def)

text \<open>
  An image without rows that reaches the parallel engine gets no goroutine, and
  \<^verbatim>\<open>height / numGoroutines\<close> divides by zero.
\<close>

lemma GrayscaleFast_no_rows_panics:
  "resultImage (Grayscale 0 noRowsStore) =
     Some (RGBAImage \<lparr>Pix = [], Stride = 0, Rect = image_Rect 0 0 0 0\<rparr>) \<and>
   GrayscaleFast sampleLibrary 0 noRowsStore = Inl DivideByZero"
proof -
  let ?e = "\<lparr>Pix = [], Stride = 0, Rect = image_Rect 0 0 0 0\<rparr>"
  have d: "Dx (image_Rect 0 0 0 0) = 0" "Dy (image_Rect 0 0 0 0) = 0"
    by (simp_all add: Dx_def Dy_def image_Rect_def)
  have g: "grayscaleImage (RGBAImage ?e) = Inr ?e"
    by (simp add: grayscaleImage_def toRGBA_def NewRGBA_def Let_def d forLoop_done)
  have p: "grayscaleParallelImage 4 alwaysParallel (RGBAImage ?e) = Inl DivideByZero"
    by (simp add: grayscaleParallelImage_def toRGBA_def NewRGBA_def Let_def d
        numGoroutines_def alwaysParallel_def quo_def)
  have "Grayscale 0 noRowsStore =
      Inr (0, replaceImage noRowsStore 0
                \<lparr>currentImage = Some 0, err = None, perfOpts = alwaysParallel\<rparr> ?e)"
    using Grayscale_ready [OF noRowsStore_proc _ _ noRowsStore_image] g by simp
  then have "resultImage (Grayscale 0 noRowsStore) = Some (RGBAImage ?e)"
    using getProc_lt [OF noRowsStore_proc] by (simp add: resultImage_replaceImage)
  moreover have "GrayscaleFast sampleLibrary 0 noRowsStore = Inl DivideByZero"
    using noRowsStore_proc noRowsStore_image p
    by (simp add: GrayscaleFast_def grayscaleParallel_def d sampleLibrary_def)
       (simp add: alwaysParallel_def)
  ultimately show ?thesis by simp
qed

subsection \<open>The rounding error of the grey level\<close>

lemma roundHalfEven_err: "\<bar>of_int (roundHalfEven q) - q\<bar> \<le> 1 / 2"
proof -
  have "of_int \<lfloor>q\<rfloor> \<le> q" "q < of_int \<lfloor>q\<rfloor> + 1" by linarith+
  then show ?thesis by (auto simp: roundHalfEven_def Let_def)
qed

lemma roundHalfEven_nonneg: "0 \<le> q \<Longrightarrow> 0 \<le> roundHalfEven q"
  by (auto simp: roundHalfEven_def Let_def)

lemma pow2_pos: "0 < pow2 e"
  by (simp add: pow2_def)

lemma pow2_nat: "0 \<le> k \<Longrightarrow> pow2 k = 2 ^ nat k"
  by (simp add: pow2_def)

lemma pow2_neg: "0 \<le> k \<Longrightarrow> pow2 (- k) = 1 / 2 ^ nat k"
  by (cases "k = 0") (simp_all add: pow2_def)

lemma pow2_Suc: "pow2 (e + 1) = 2 * pow2 e"
proof (cases "0 \<le> e")
  case True
  then show ?thesis by (simp add: pow2_def nat_add_distrib)
next
  case False
  then have "nat (- e) = Suc (nat (- (e + 1)))" by simp
  then show ?thesis using False by (auto simp: pow2_def)
qed

lemma pow2_add_nat: "pow2 (e + int n) = 2 ^ n * pow2 e"
proof (induction n)
  case 0
  show ?case by simp
next
  case (Suc n)
  have "e + int (Suc n) = (e + int n) + 1" by simp
  then have "pow2 (e + int (Suc n)) = pow2 ((e + int n) + 1)" by (rule arg_cong)
  also have "\<dots> = 2 * pow2 (e + int n)" by (rule pow2_Suc)
  finally show ?case by (simp add: Suc.IH)
qed

lemma pow2_minus_52: "pow2 (k - 52) * 2 ^ 52 = pow2 k"
  using pow2_add_nat [of "k - 52" 52] by simp

lemma ilog2_le:
  assumes "0 < q"
  shows "pow2 (ilog2 q) \<le> q"
proof (cases "1 \<le> q")
  case True
  then have f: "0 < \<lfloor>q\<rfloor>" by linarith
  from bitlen_bounds [OF f] have "(2::int) ^ nat (bitlen \<lfloor>q\<rfloor> - 1) \<le> \<lfloor>q\<rfloor>" by simp
  then have "(of_int ((2::int) ^ nat (bitlen \<lfloor>q\<rfloor> - 1)) :: rat) \<le> of_int \<lfloor>q\<rfloor>"
    by (simp only: of_int_le_iff)
  also have "\<dots> \<le> q" by simp
  finally have "(2::rat) ^ nat (bitlen \<lfloor>q\<rfloor> - 1) \<le> q" by simp
  moreover have "1 \<le> bitlen \<lfloor>q\<rfloor>" using f by (simp add: bitlen_alt_def)
  ultimately show ?thesis using True by (simp add: ilog2_def pow2_nat)
next
  case False
  let ?c = "\<lceil>1 / q\<rceil>"
  let ?b = "bitlen (?c - 1)"
  have "1 < 1 / q" using False assms by simp
  then have c: "2 \<le> ?c" by linarith
  then have "?c - 1 < 2 ^ nat ?b" using bitlen_bounds [of "?c - 1"] by simp
  then have "?c \<le> 2 ^ nat ?b" by simp
  then have "(of_int ?c :: rat) \<le> of_int (2 ^ nat ?b)" by (simp only: of_int_le_iff)
  moreover have "1 / q \<le> of_int ?c" by (rule le_of_int_ceiling)
  moreover have "(of_int (2 ^ nat ?b) :: rat) = 2 ^ nat ?b" by simp
  ultimately have "1 / q \<le> 2 ^ nat ?b" by linarith
  then have "1 \<le> 2 ^ nat ?b * q" using assms by (simp add: field_simps)
  then have "1 / 2 ^ nat ?b \<le> q" by (simp add: field_simps)
  then show ?thesis using False by (simp add: ilog2_def pow2_neg bitlen_nonneg)
qed

lemma float64_err:
  assumes "0 < q"
  shows "\<bar>float64 q - q\<bar> \<le> q / 2 ^ 53"
proof -
  define e where "e = ilog2 q - 52"
  define m where "m = q / pow2 e"
  have pe: "0 < pow2 e" by (rule pow2_pos)
  have f: "float64 q = of_int (roundHalfEven m) * pow2 e"
    using assms by (simp add: float64_def Let_def e_def m_def)
  have q: "q = m * pow2 e" using pe by (simp add: m_def)
  have "float64 q - q = of_int (roundHalfEven m) * pow2 e - m * pow2 e"
    using f q by simp
  then have "float64 q - q = (of_int (roundHalfEven m) - m) * pow2 e"
    by (simp add: algebra_simps)
  then have "\<bar>float64 q - q\<bar> = \<bar>of_int (roundHalfEven m) - m\<bar> * pow2 e"
    using pe by (simp add: abs_mult)
  also have "\<dots> \<le> 1 / 2 * pow2 e"
    using roundHalfEven_err [of m] pe by (intro mult_right_mono) simp_all
  also have "pow2 e * 2 ^ 52 \<le> q"
    unfolding e_def pow2_minus_52 by (rule ilog2_le [OF assms])
  then have "1 / 2 * pow2 e \<le> q / 2 ^ 53" by simp
  finally show ?thesis by simp
qed

lemma float64_nonneg:
  assumes "0 \<le> q"
  shows "0 \<le> float64 q"
proof (cases "q = 0")
  case True
  then show ?thesis by (simp add: float64_def)
next
  case False
  define e where "e = ilog2 \<bar>q\<bar> - 52"
  have "0 \<le> q / pow2 e" using assms pow2_pos [of e] by simp
  then have "0 \<le> roundHalfEven (q / pow2 e)" by (rule roundHalfEven_nonneg)
  then have "0 \<le> (of_int (roundHalfEven (q / pow2 e)) :: rat) * pow2 e"
    using pow2_pos [of e] by (intro mult_nonneg_nonneg) simp_all
  then show ?thesis using False by (simp add: float64_def Let_def e_def)
qed

lemma float64_abs_err:
  assumes "0 \<le> q" and "q \<le> 256"
  shows "\<bar>float64 q - q\<bar> \<le> 1 / 2 ^ 45"
proof (cases "q = 0")
  case True
  then show ?thesis by (simp add: float64_def)
next
  case False
  with assms have "0 < q" by simp
  from float64_err [OF this] have "\<bar>float64 q - q\<bar> \<le> q / 2 ^ 53" .
  also have "\<dots> \<le> 256 / 2 ^ 53" using assms(2) by (simp add: divide_right_mono)
  finally show ?thesis by simp
qed

lemma term_err:
  fixes c R :: rat
  assumes c: "0 \<le> c" "c \<le> 1" and R: "0 \<le> R" "R \<le> 255"
  shows "\<bar>fmul (float64 c) R - c * R\<bar> \<le> 1 / 2 ^ 37" and "0 \<le> fmul (float64 c) R"
proof -
  define a where "a = float64 c"
  have a0: "0 \<le> a" unfolding a_def by (rule float64_nonneg [OF c(1)])
  have ac: "\<bar>a - c\<bar> \<le> 1 / 2 ^ 45" unfolding a_def by (rule float64_abs_err) (use c in simp_all)
  have aR0: "0 \<le> a * R" using a0 R by simp
  have "a \<le> 1 + 1 / 2 ^ 45" using ac c by linarith
  then have "a * R \<le> (1 + 1 / 2 ^ 45) * 255" using a0 R by (intro mult_mono) simp_all
  then have aR: "a * R \<le> 256" by simp
  have e1: "\<bar>float64 (a * R) - a * R\<bar> \<le> 1 / 2 ^ 45" by (rule float64_abs_err [OF aR0 aR])
  have "\<bar>a * R - c * R\<bar> = \<bar>a - c\<bar> * R" using R by (simp add: abs_mult left_diff_distrib [symmetric])
  also have "\<dots> \<le> 1 / 2 ^ 45 * 255" using ac R by (intro mult_mono) simp_all
  finally have e2: "\<bar>a * R - c * R\<bar> \<le> 255 / 2 ^ 45" by simp
  have "\<bar>float64 (a * R) - c * R\<bar> \<le> 1 / 2 ^ 45 + 255 / 2 ^ 45" using e1 e2 by linarith
  then show "\<bar>fmul (float64 c) R - c * R\<bar> \<le> 1 / 2 ^ 37" by (simp add: fmul_def a_def)
  show "0 \<le> fmul (float64 c) R" unfolding fmul_def a_def [symmetric] by (rule float64_nonneg [OF aR0])
qed

lemma unat8_bounds: "(0::rat) \<le> of_nat (unat (w :: uint8))" "(of_nat (unat (w :: uint8)) :: rat) \<le> 255"
proof -
  have "unat w < 256" using unsigned_less [of w] by simp
  then have "unat w \<le> 255" by simp
  then show "(of_nat (unat w) :: rat) \<le> 255" by (metis of_nat_le_iff of_nat_numeral)
  show "(0::rat) \<le> of_nat (unat w)" by (rule of_nat_0_le_iff)
qed

lemma luminosity_err: "\<bar>luminosity r g b - weightedSum r g b\<bar> \<le> 1 / 2 ^ 35"
proof -
  define R G B :: rat where "R = of_nat (unat r)" and "G = of_nat (unat g)" and "B = of_nat (unat b)"
  note bR = unat8_bounds [of r, folded R_def] and bG = unat8_bounds [of g, folded G_def]
    and bB = unat8_bounds [of b, folded B_def]
  define d d' :: rat where "d = 1 / 2 ^ 37" and "d' = 1 / 2 ^ 45"
  have d: "0 \<le> d" "d \<le> 1 / 1000" "0 \<le> d'" "d' \<le> 1 / 1000" "d' + d' + d + d + d \<le> 1 / 2 ^ 35"
    by (simp_all add: d_def d'_def)
  define p1 p2 p3 where "p1 = fmul (float64 (2126 / 10000)) R"
    and "p2 = fmul (float64 (7152 / 10000)) G" and "p3 = fmul (float64 (722 / 10000)) B"
  have e1: "\<bar>p1 - 2126 / 10000 * R\<bar> \<le> d" and n1: "0 \<le> p1"
    unfolding p1_def d_def by (rule term_err; use bR in simp)+
  have e2: "\<bar>p2 - 7152 / 10000 * G\<bar> \<le> d" and n2: "0 \<le> p2"
    unfolding p2_def d_def by (rule term_err; use bG in simp)+
  have e3: "\<bar>p3 - 722 / 10000 * B\<bar> \<le> d" and n3: "0 \<le> p3"
    unfolding p3_def d_def by (rule term_err; use bB in simp)+
  define s1 where "s1 = fadd p1 p2"
  have "p1 + p2 \<le> 256" using e1 e2 bR bG d(2) by linarith
  then have es1: "\<bar>s1 - (p1 + p2)\<bar> \<le> d'"
    unfolding s1_def fadd_def d'_def using n1 n2 by (intro float64_abs_err) simp_all
  have ns1: "0 \<le> s1"
    unfolding s1_def fadd_def using n1 n2 by (intro float64_nonneg) simp
  have "s1 + p3 \<le> 256" using es1 e1 e2 e3 bR bG bB d(2,4) by linarith
  then have es2: "\<bar>fadd s1 p3 - (s1 + p3)\<bar> \<le> d'"
    unfolding fadd_def d'_def using ns1 n3 by (intro float64_abs_err) simp_all
  have l: "luminosity r g b = fadd s1 p3"
    by (simp add: luminosity_def s1_def p1_def p2_def p3_def R_def G_def B_def)
  have w: "weightedSum r g b = 2126 / 10000 * R + 7152 / 10000 * G + 722 / 10000 * B"
    by (simp add: weightedSum_def R_def G_def B_def add_divide_distrib)
  have "\<bar>fadd s1 p3 - (2126 / 10000 * R + 7152 / 10000 * G + 722 / 10000 * B)\<bar>
      \<le> d' + d' + d + d + d"
    using es2 es1 e1 e2 e3 by linarith
  then show ?thesis unfolding l w using d(5) by linarith
qed

lemma weightedSum_eq:
  "weightedSum r g b =
     of_int (2126 * int (unat r) + 7152 * int (unat g) + 722 * int (unat b)) / 10000"
  by (simp add: weightedSum_def)

lemma floor_near:
  fixes L W :: rat
  assumes "\<bar>L - W\<bar> \<le> 1 / 2 ^ 35" and W: "W = of_int N / 10000"
  shows "\<lfloor>L\<rfloor> = \<lfloor>W\<rfloor> \<or> (10000 dvd N \<and> \<lfloor>L\<rfloor> = \<lfloor>W\<rfloor> - 1)"
proof -
  define k where "k = N div 10000"
  define m where "m = N mod 10000"
  define d :: rat where "d = 1 / 2 ^ 35"
  have d: "0 \<le> d" "d < 1 / 10000" by (simp_all add: d_def)
  have N: "N = 10000 * k + m" and m: "0 \<le> m" "m < 10000" by (simp_all add: k_def m_def)
  have Wk: "W = of_int k + of_int m / 10000" unfolding W N by simp
  have fl: "\<lfloor>W\<rfloor> = k"
    unfolding W k_def using floor_divide_of_int_eq [of N 10000, where ?'a = rat] by simp
  have LW: "W - d \<le> L" "L \<le> W + d" using assms(1) unfolding d_def by linarith+
  show ?thesis
  proof (cases "m = 0")
    case True
    then have "of_int k - d \<le> L" "L \<le> of_int k + d" using LW Wk by simp_all
    then have "of_int (k - 1) \<le> L" "L < of_int (k + 1)" using d by simp_all
    then have "\<lfloor>L\<rfloor> = k - 1 \<or> \<lfloor>L\<rfloor> = k" by (simp add: le_floor_iff floor_less_iff) linarith
    moreover have "10000 dvd N" using True by (simp add: m_def dvd_eq_mod_eq_0)
    ultimately show ?thesis using fl by auto
  next
    case False
    with m have "1 \<le> m" "m \<le> 9999" by simp_all
    then have "(1::rat) \<le> of_int m" "(of_int m :: rat) \<le> 9999"
      by (simp_all add: of_int_le_iff [of 1 m, simplified] of_int_le_iff [of m 9999, simplified])
    then have "of_int k + 1 / 10000 \<le> W" "W \<le> of_int k + 9999 / 10000"
      unfolding Wk by simp_all
    then have "of_int k \<le> L" "L < of_int k + 1" using LW d by linarith+
    then have "\<lfloor>L\<rfloor> = k" by (simp add: floor_eq_iff)
    then show ?thesis using fl by simp
  qed
qed

text \<open>
  The float64 sum is within \<open>2^-35\<close> of the exact weighted sum, which is a multiple of
  \<open>1/10000\<close>. So the grey level is the floor of the exact sum, except where the exact sum
  is an integer: there it may also be one less.
\<close>

lemma gray_floor:
  "\<lfloor>luminosity r g b\<rfloor> = \<lfloor>weightedSum r g b\<rfloor> \<or>
   (10000 dvd 2126 * int (unat r) + 7152 * int (unat g) + 722 * int (unat b) \<and>
    \<lfloor>luminosity r g b\<rfloor> = \<lfloor>weightedSum r g b\<rfloor> - 1)"
  by (rule floor_near [OF luminosity_err weightedSum_eq])

lemma weightedSum_same: "weightedSum g g g = of_int (int (unat g))"
  by (simp add: weightedSum_def)

text \<open>
  On a pixel that is already grey the exact sum is the level itself, so the level comes
  back, or one less. Black stays black: the subtraction never wraps below 0.
\<close>

lemma gray_of_gray_level: "gray g g g = g \<or> (g \<noteq> 0 \<and> gray g g g = g - 1)"
proof (cases "g = 0")
  case True
  then show ?thesis by (simp add: gray_0_0_0)
next
  case False
  have "\<lfloor>weightedSum g g g\<rfloor> = int (unat g)" by (simp only: weightedSum_same floor_of_int)
  with gray_floor [of g g g]
  have "\<lfloor>luminosity g g g\<rfloor> = int (unat g) \<or> \<lfloor>luminosity g g g\<rfloor> = int (unat g) - 1"
    by auto
  then have "gray g g g = g \<or> gray g g g = g - 1" by (auto simp: gray_def)
  with False show ?thesis by simp
qed

lemma grayColour_twice:
  "\<exists>v w al. grayColour c = (v, v, v, al) \<and> grayColour (grayColour c) = (w, w, w, al) \<and>
     (w = v \<or> (v \<noteq> 0 \<and> w = v - 1))"
proof -
  obtain r g b al where c: "c = (r, g, b, al)" by (cases c) auto
  show ?thesis
    using gray_of_gray_level [of "gray r g b"] by (auto simp: c grayColour_def)
qed

lemma getImage_replaceImage_new:
  "getImage (replaceImage s ip p img) (Some (length (images s))) = Inr (RGBAImage img)"
  by (simp add: replaceImage_eq getImage_def)

subsection \<open>Grayscale twice\<close>

text \<open>
  Claim C6, amended. On a processor with no latched error and a well-formed current image,
  two calls of \<^verbatim>\<open>Grayscale\<close> in sequence both succeed and give images with the bounds of the
  source. At every point the first image holds a grey pixel \<open>(v, v, v, alpha)\<close>, and the
  second holds a grey pixel \<open>(w, w, w, alpha)\<close> with the same alpha, where \<open>w\<close> is \<open>v\<close>, or
  one less than \<open>v\<close> when \<open>v\<close> is not 0: the formula gives back an exact \<open>v\<close> only up to the
  rounding of float64, and the conversion truncates. The level never wraps: black stays
  black.
\<close>

theorem Grayscale_twice:
  assumes "getProc s ip = Inr p" and "err p = None" and "currentImage p = Some a"
    and "getImage s (Some a) = Inr img" and "wfImage img"
  shows "\<exists>d1 d2 s1 s2. Grayscale ip s = Inr (ip, s1) \<and> Grayscale ip s1 = Inr (ip, s2) \<and>
           resultImage (Inr (ip, s1)) = Some (RGBAImage d1) \<and>
           resultImage (Inr (ip, s2)) = Some (RGBAImage d2) \<and>
           Rect d1 = Bounds img \<and> Rect d2 = Bounds img \<and>
           (\<forall>x y. PointIn (Pt x y) (Bounds img) \<longrightarrow>
              (\<exists>v w al. readPixel (Pix d1) (PixOffset d1 x y) = Inr (v, v, v, al) \<and>
                 readPixel (Pix d2) (PixOffset d2 x y) = Inr (w, w, w, al) \<and>
                 (w = v \<or> (v \<noteq> 0 \<and> w = v - 1))))"
proof -
  have lt: "ip < length (procs s)" by (rule getProc_lt [OF assms(1)])
  from grayscaleImage_spec [OF assms(5)] obtain d1 where d1:
    "grayscaleImage img = Inr d1" "wfRGBA d1" "Rect d1 = Bounds img"
    "\<And>x y. PointIn (Pt x y) (Bounds img) \<Longrightarrow>
       \<exists>c. srcColour8 img x y = Inr c \<and>
           readPixel (Pix d1) (PixOffset d1 x y) = Inr (grayColour c)"
    by blast
  define s1 where "s1 = replaceImage s ip p d1"
  define p1 where "p1 = p\<lparr>currentImage := Some (length (images s))\<rparr>"
  have g1: "Grayscale ip s = Inr (ip, s1)"
    using Grayscale_ready [OF assms(1-4)] d1(1) by (simp add: s1_def)
  have gp1: "getProc s1 ip = Inr p1"
    unfolding s1_def p1_def by (rule getProc_replaceImage [OF lt])
  have gi1: "getImage s1 (Some (length (images s))) = Inr (RGBAImage d1)"
    unfolding s1_def by (rule getImage_replaceImage_new)
  have wf1: "wfImage (RGBAImage d1)" using d1(2) by simp
  from grayscaleImage_spec [OF wf1] obtain d2 where d2:
    "grayscaleImage (RGBAImage d1) = Inr d2" "Rect d2 = Rect d1"
    "\<And>x y. PointIn (Pt x y) (Rect d1) \<Longrightarrow>
       \<exists>c. srcColour8 (RGBAImage d1) x y = Inr c \<and>
           readPixel (Pix d2) (PixOffset d2 x y) = Inr (grayColour c)"
    by auto
  define s2 where "s2 = replaceImage s1 ip p1 d2"
  have g2: "Grayscale ip s1 = Inr (ip, s2)"
    using Grayscale_ready [OF gp1 _ _ gi1] d2(1) assms(2) by (simp add: s2_def p1_def)
  have lt1: "ip < length (procs s1)" by (rule getProc_lt [OF gp1])
  have r1: "resultImage (Inr (ip, s1)) = Some (RGBAImage d1)"
    unfolding s1_def by (rule resultImage_replaceImage [OF lt])
  have r2: "resultImage (Inr (ip, s2)) = Some (RGBAImage d2)"
    unfolding s2_def by (rule resultImage_replaceImage [OF lt1])
  have px: "\<exists>v w al. readPixel (Pix d1) (PixOffset d1 x y) = Inr (v, v, v, al) \<and>
       readPixel (Pix d2) (PixOffset d2 x y) = Inr (w, w, w, al) \<and>
       (w = v \<or> (v \<noteq> 0 \<and> w = v - 1))"
    if pin: "PointIn (Pt x y) (Bounds img)" for x y
  proof -
    from d1(4) [OF pin] obtain c where c:
      "readPixel (Pix d1) (PixOffset d1 x y) = Inr (grayColour c)" by blast
    from d2(3) [of x y] pin d1(3) c
    have c2: "readPixel (Pix d2) (PixOffset d2 x y) = Inr (grayColour (grayColour c))"
      by (auto simp: srcColour8_def)
    from grayColour_twice [of c] c c2 show ?thesis by auto
  qed
  have "Rect d2 = Bounds img" using d2(2) d1(3) by simp
  with g1 g2 r1 r2 d1(3) px show ?thesis
    by (intro exI [of _ d1] exI [of _ d2] exI [of _ s1] exI [of _ s2]) simp
qed


lemma Grayscale_twice_readyStore:
  defines "p \<equiv> \<lparr>currentImage = Some 0, err = None, perfOpts = DefaultPerformanceOptions 4\<rparr>"
  shows "Grayscale 0 (replaceImage (readyStore c) 0 p (onePixel 0 0 (grayColour c))) =
     Inr (0, replaceImage (replaceImage (readyStore c) 0 p (onePixel 0 0 (grayColour c))) 0
               (p\<lparr>currentImage := Some 1\<rparr>)
               (onePixel 0 0 (grayColour (grayColour c))))"
proof -
  let ?s1 = "replaceImage (readyStore c) 0 p (onePixel 0 0 (grayColour c))"
  have lt: "0 < length (procs (readyStore c))"
    using getProc_lt [OF readyStore_proc] .
  have len: "length (images (readyStore c)) = 1" by (simp add: readyStore_images)
  have gp: "getProc ?s1 0 = Inr (p\<lparr>currentImage := Some 1\<rparr>)"
    using getProc_replaceImage [OF lt, of p "onePixel 0 0 (grayColour c)"] by (simp add: len)
  have gi: "getImage ?s1 (Some 1) = Inr (RGBAImage (onePixel 0 0 (grayColour c)))"
    using getImage_replaceImage_new [of "readyStore c" 0 p "onePixel 0 0 (grayColour c)"]
    by (simp add: len)
  show ?thesis
    by (rule Grayscale_onePixel [OF gp _ _ gi]) (simp_all add: p_def)
qed

text \<open>
  Claim C6 says that the second call changes nothing. For the pixel \<open>(0, 10, 0, 255)\<close> the
  first call gives the grey level 7, and the second gives 6: in float64,
  \<^verbatim>\<open>0.2126*7 + 0.7152*7 + 0.0722*7\<close> is just below 7.
\<close>

theorem Grayscale_twice_counterexample:
  "resultImage (chain sampleLibrary [CallGrayscale] 0 (readyStore (0, 10, 0, 255))) =
     Some (RGBAImage (onePixel 0 0 (7, 7, 7, 255))) \<and>
   resultImage (chain sampleLibrary [CallGrayscale, CallGrayscale] 0 (readyStore (0, 10, 0, 255))) =
     Some (RGBAImage (onePixel 0 0 (6, 6, 6, 255)))"
proof -
  have g1: "grayColour (0, 10, 0, 255) = (7, 7, 7, 255)"
    by (simp add: grayColour_def gray_0_10_0)
  have g2: "grayColour (7, 7, 7, 255) = (6, 6, 6, 255)"
    by (simp add: grayColour_def gray_7_7_7)
  have lt: "0 < length (procs (readyStore (0, 10, 0, 255)))"
    using getProc_lt [OF readyStore_proc] .
  have lt1: "0 < length (procs (replaceImage (readyStore (0, 10, 0, 255)) 0 p d))" for p d
    using lt by (simp add: replaceImage_eq)
  show ?thesis
    using Grayscale_twice_readyStore [of "(0, 10, 0, 255)"] lt lt1
    by (simp add: Grayscale_readyStore g1 g2 resultImage_replaceImage)
qed

theorem Grayscale_twice_witness:
  "getProc (readyStore (0, 10, 0, 255)) 0 =
     Inr \<lparr>currentImage = Some 0, err = None, perfOpts = DefaultPerformanceOptions 4\<rparr> \<and>
   getImage (readyStore (0, 10, 0, 255)) (Some 0) = Inr (RGBAImage (onePixel 0 0 (0, 10, 0, 255))) \<and>
   wfImage (RGBAImage (onePixel 0 0 (0, 10, 0, 255))) \<and>
   PointIn (Pt 0 0) (Bounds (RGBAImage (onePixel 0 0 (0, 10, 0, 255)))) \<and>
   (\<exists>d1 d2 s1 s2. Grayscale 0 (readyStore (0, 10, 0, 255)) = Inr (0, s1) \<and>
      Grayscale 0 s1 = Inr (0, s2) \<and>
      resultImage (Inr (0, s1)) = Some (RGBAImage d1) \<and>
      resultImage (Inr (0, s2)) = Some (RGBAImage d2) \<and>
      (\<exists>v w al. readPixel (Pix d1) (PixOffset d1 0 0) = Inr (v, v, v, al) \<and>
         readPixel (Pix d2) (PixOffset d2 0 0) = Inr (w, w, w, al) \<and>
         (w = v \<or> (v \<noteq> 0 \<and> w = v - 1))))"
proof -
  let ?img = "RGBAImage (onePixel 0 0 (0, 10, 0, 255))"
  have wf: "wfImage ?img" by (simp add: wfRGBA_onePixel)
  have pin: "PointIn (Pt 0 0) (Bounds ?img)" by (simp add: PointIn_def onePixel_rect)
  from Grayscale_twice [OF readyStore_proc _ _ readyStore_image wf]
  obtain d1 d2 s1 s2 where r: "Grayscale 0 (readyStore (0, 10, 0, 255)) = Inr (0, s1)"
    "Grayscale 0 s1 = Inr (0, s2)"
    "resultImage (Inr (0, s1)) = Some (RGBAImage d1)"
    "resultImage (Inr (0, s2)) = Some (RGBAImage d2)"
    "\<And>x y. PointIn (Pt x y) (Bounds ?img) \<Longrightarrow>
       \<exists>v w al. readPixel (Pix d1) (PixOffset d1 x y) = Inr (v, v, v, al) \<and>
         readPixel (Pix d2) (PixOffset d2 x y) = Inr (w, w, w, al) \<and>
         (w = v \<or> (v \<noteq> 0 \<and> w = v - 1))"
    by auto
  from r(1-4) r(5) [OF pin] wf pin show ?thesis
    by (simp only: readyStore_proc readyStore_image) blast
qed

subsection \<open>The earlier copy of Grayscale at two pixels\<close>

text \<open>
  The earlier \<^verbatim>\<open>Grayscale\<close> also writes 0 for the pixel \<open>(0, 1, 0, 255)\<close>, and it does
  not keep the alpha of the source: a transparent pixel becomes opaque.
\<close>

lemma grayscaleEarlierImage_onePixel:
  "grayscaleEarlierImage (RGBAImage (onePixel x0 y0 c)) =
     Inr (onePixel x0 y0
            (grayModelConvert (rgba16_of c), grayModelConvert (rgba16_of c),
             grayModelConvert (rgba16_of c), 255))"
proof -
  obtain r g b a where c: "c = (r, g, b, a)" by (cases c) auto
  show ?thesis
    unfolding c
    by (simp add: grayscaleEarlierImage_def newRGBA_def NewRGBA_def Let_def forLoop_step
        forLoop_done colourAt16_def PointIn_def PixOffset_def readPixel_def readPix_def
        writePixel_def writePix_def onePixel_def Dx_def Dy_def image_Rect_def eval_nat_numeral)
qed

lemma grayModelConvert_0_1_0: "grayModelConvert (rgba16_of (0, 1, 0, 255)) = 0"
  by (simp add: grayModelConvert_def rgba16_of_def)

lemma grayscaleEarlierImage_examples:
  "grayscaleEarlierImage (RGBAImage (onePixel 0 0 (0, 1, 0, 255))) =
     Inr (onePixel 0 0 (0, 0, 0, 255))"
  "grayscaleEarlierImage (RGBAImage (onePixel 0 0 (0, 0, 0, 0))) =
     Inr (onePixel 0 0 (0, 0, 0, 255))"
  by (simp_all add: grayscaleEarlierImage_onePixel grayModelConvert_def rgba16_of_def)

end
